theory Spec2Isabelle
  imports Main "HOL-Library.Word"
begin

section \<open>The parse driver of \<^verbatim>\<open>src/runtime/parser.c\<close>\<close>

text \<open>
  The driver works on tree nodes through pointers: the lookahead slots and the stack
  entries hold addresses, and \<^verbatim>\<open>handle_error\<close>, \<^verbatim>\<open>shift_extra\<close>, \<^verbatim>\<open>reduce_extra\<close>
  and \<^verbatim>\<open>get_root\<close> write to the node behind a pointer. The model keeps the nodes in an
  explicit store (a function from addresses to node cells, with the next free address),
  so that two pointers to one node see each other's writes. A null pointer is \<open>None\<close>.
  Reference counts only decide when memory is given back; they are left out, and no
  cell is ever reclaimed. The \<^verbatim>\<open>debug\<close> flag only prints, and is left out too.
\<close>

subsection \<open>Lengths\<close>

text \<open>
  Modelled from the spec: \<^verbatim>\<open>runtime/length.h\<close> is missing. A length is a pair of
  unsigned 32-bit counts; addition is componentwise, subtraction is componentwise and
  stops at zero. No theorem below depends on what subtraction does on underflow.
\<close>

record TSLength =
  chars :: "32 word"
  extended :: "32 word"

definition ts_length_zero :: TSLength where
  "ts_length_zero = \<lparr>chars = 0, extended = 0\<rparr>"

definition ts_length_add :: "TSLength \<Rightarrow> TSLength \<Rightarrow> TSLength" where
  "ts_length_add len1 len2 =
     \<lparr>chars = chars len1 + chars len2, extended = extended len1 + extended len2\<rparr>"

definition sub_u32 :: "32 word \<Rightarrow> 32 word \<Rightarrow> 32 word" where
  "sub_u32 a b = (if a < b then 0 else a - b)"

definition ts_length_sub :: "TSLength \<Rightarrow> TSLength \<Rightarrow> TSLength" where
  "ts_length_sub len1 len2 =
     \<lparr>chars = sub_u32 (chars len1) (chars len2),
      extended = sub_u32 (extended len1) (extended len2)\<rparr>"

definition ts_length_eq :: "TSLength \<Rightarrow> TSLength \<Rightarrow> bool" where
  "ts_length_eq len1 len2 \<longleftrightarrow>
     chars len1 = chars len2 \<and> extended len1 = extended len2"

subsection \<open>Tree nodes and the store\<close>

type_synonym TSSymbol = nat
type_synonym TSStateId = nat
type_synonym addr = nat

text \<open>
  Modelled from the spec: \<^verbatim>\<open>runtime/tree.h\<close> is missing. A node has a symbol, a
  padding, a size, its children (pointers, in order) and flag bits, of which the driver
  uses \<open>extra\<close> and \<open>hidden\<close>; writing 0 to \<^verbatim>\<open>options\<close> clears both.
\<close>

record TSTreeOptions =
  extra :: bool
  hidden :: bool

record TSTree =
  symbol :: TSSymbol
  padding :: TSLength
  sizeT :: TSLength
  children :: "addr list"
  options :: TSTreeOptions

type_synonym store = "addr \<Rightarrow> TSTree"

definition no_options :: TSTreeOptions where
  "no_options = \<lparr>extra = False, hidden = False\<rparr>"

definition ts_tree_is_extra :: "TSTree \<Rightarrow> bool" where
  "ts_tree_is_extra tree = extra (options tree)"

definition ts_tree_set_extra :: "TSTree \<Rightarrow> TSTree" where
  "ts_tree_set_extra tree = tree\<lparr>options := (options tree)\<lparr>extra := True\<rparr>\<rparr>"

definition ts_tree_total_size :: "TSTree \<Rightarrow> TSLength" where
  "ts_tree_total_size tree = ts_length_add (padding tree) (sizeT tree)"

text \<open>
  Modelled from the spec: the error symbol reserved by \<^verbatim>\<open>tree_sitter/runtime.h\<close>,
  which is missing, is symbol 0.
\<close>

definition ts_builtin_sym_error :: TSSymbol where
  "ts_builtin_sym_error = 0"

subsection \<open>Parse actions, lexer, language\<close>

text \<open>
  Modelled from the spec: the action type of the missing \<^verbatim>\<open>tree_sitter/parser.h\<close>. The
  action of a table cell is a tag with its data. \<open>TSParseActionTypeOther\<close> stands
  for every tag value outside the enumeration, which the \<^verbatim>\<open>switch\<close> of
  \<^verbatim>\<open>ts_parser_parse\<close> sends to its \<^verbatim>\<open>default\<close> branch.
\<close>

datatype TSParseAction =
    TSParseActionTypeShift (to_state: TSStateId)
  | TSParseActionTypeShiftExtra
  | TSParseActionTypeReduce TSSymbol nat
  | TSParseActionTypeReduceExtra TSSymbol
  | TSParseActionTypeAccept
  | TSParseActionTypeError
  | TSParseActionTypeOther

text \<open>
  Modelled from the spec: \<^verbatim>\<open>runtime/lexer.h\<close> is missing. The lexer holds the input, its
  cursor and the start of the token it produced last. The input is a string of
  one-byte characters.
\<close>

record TSLexer =
  input :: string
  current_position :: TSLength
  token_start_position :: TSLength

definition ts_lexer_make :: TSLexer where
  "ts_lexer_make =
     \<lparr>input = [], current_position = ts_length_zero, token_start_position = ts_length_zero\<rparr>"

definition ts_lexer_reset :: "TSLexer \<Rightarrow> TSLength \<Rightarrow> TSLexer" where
  "ts_lexer_reset lx pos = lx\<lparr>current_position := pos, token_start_position := pos\<rparr>"

text \<open>
  Modelled from the spec: the single-character advance (section 4.9, step 2: the driver
  forces a single-character advance, and recovery fails if that advance reaches the end
  of the input). The cursor moves one character on, unless it stands at the end of the
  input already. The answer is \<open>False\<close> when the cursor stands at the end of the input
  after that, and \<open>True\<close> when characters remain.
\<close>

definition ts_lexer_advance :: "TSLexer \<Rightarrow> bool \<times> TSLexer" where
  "ts_lexer_advance lx =
     (let lx' = (if unat (chars (current_position lx)) < length (input lx)
                 then lx\<lparr>current_position :=
                          ts_length_add (current_position lx) \<lparr>chars = 1, extended = 1\<rparr>\<rparr>
                 else lx)
      in (unat (chars (current_position lx')) < length (input lx'), lx'))"

text \<open>
  Modelled from the spec: the language record of the missing \<^verbatim>\<open>tree_sitter/parser.h\<close>.
  The language is the generator's data. The tables are functions of their index (their
  storage belongs to the generator). \<open>lex_fn\<close> is the language's lexer: from the lexer
  and a lex state it gives the new token, as the cell of a freshly allocated node, and
  the lexer after it. \<open>lex_error_state\<close> is the constant \<^verbatim>\<open>ts_lex_state_error\<close> of the
  missing header.
\<close>

record TSLanguage =
  symbol_count :: nat
  parse_table :: "nat \<Rightarrow> TSParseAction"
  lex_states :: "TSStateId \<Rightarrow> nat"
  lex_error_state :: nat
  lex_fn :: "TSLexer \<Rightarrow> nat \<Rightarrow> TSTree \<times> TSLexer"
  hidden_symbol_flags :: "TSSymbol \<Rightarrow> bool"

text \<open>
  Modelled from the spec: the document symbol, which the missing header reserves, is
  the last symbol of the language.
\<close>

definition ts_builtin_sym_document :: "TSLanguage \<Rightarrow> TSSymbol" where
  "ts_builtin_sym_document lang = symbol_count lang - 1"

subsection \<open>The stack\<close>

text \<open>
  Modelled from the spec: \<^verbatim>\<open>runtime/stack.h\<close> is missing. The stack is the sequence of
  its entries, entry 0 at the bottom; its size is the length of the sequence. The top
  state of the empty stack is state 0, its top node is null.
\<close>

record TSStackEntry =
  state :: TSStateId
  node :: addr

type_synonym TSStack = "TSStackEntry list"

definition ts_stack_make :: TSStack where
  "ts_stack_make = []"

definition ts_stack_top_state :: "TSStack \<Rightarrow> TSStateId" where
  "ts_stack_top_state st = (if st = [] then 0 else state (last st))"

definition ts_stack_top_node :: "TSStack \<Rightarrow> addr option" where
  "ts_stack_top_node st = (if st = [] then None else Some (node (last st)))"

definition ts_stack_push :: "TSStack \<Rightarrow> TSStateId \<Rightarrow> addr \<Rightarrow> TSStack" where
  "ts_stack_push st s n = st @ [\<lparr>state = s, node = n\<rparr>]"

definition ts_stack_shrink :: "TSStack \<Rightarrow> nat \<Rightarrow> TSStack" where
  "ts_stack_shrink st new_size = take new_size st"

definition ts_stack_right_position :: "store \<Rightarrow> TSStack \<Rightarrow> TSLength" where
  "ts_stack_right_position mem st =
     foldl (\<lambda>acc e. ts_length_add acc (ts_tree_total_size (mem (node e)))) ts_length_zero st"

subsection \<open>The parser\<close>

text \<open>
  Modelled from the spec: the parser record of the missing \<^verbatim>\<open>runtime/parser.h\<close> and the
  edit of \<^verbatim>\<open>tree_sitter/runtime.h\<close>. The fields \<open>trees\<close> and \<open>next_tree\<close> are the store
  of the nodes and its next free address.
\<close>

record TSParser =
  lexer :: TSLexer
  stack :: TSStack
  lookahead :: "addr option"
  next_lookahead :: "addr option"
  language :: TSLanguage
  trees :: store
  next_tree :: addr

record TSInputEdit =
  position :: nat
  chars_inserted :: nat
  chars_removed :: nat

text \<open>
  What C leaves undefined is a value of the model: reading through a null pointer and
  reading the stack outside its entries.
\<close>

datatype fault = NullDereference | OutOfBounds

text \<open>Allocation of a node: the next free address receives the cell.\<close>

definition alloc_tree :: "TSParser \<Rightarrow> TSTree \<Rightarrow> addr \<times> TSParser" where
  "alloc_tree parser cell =
     (next_tree parser,
      parser\<lparr>trees := (trees parser)(next_tree parser := cell),
             next_tree := next_tree parser + 1\<rparr>)"

text \<open>
  Modelled from the spec: \<^verbatim>\<open>ts_tree_make_node\<close> and \<^verbatim>\<open>ts_tree_make_error\<close> of the
  missing \<^verbatim>\<open>runtime/tree.c\<close>. The new node takes the padding of its first child, and as
  size the total sizes of its children less that padding; without children both are
  zero.
\<close>

definition children_total_size :: "store \<Rightarrow> addr list \<Rightarrow> TSLength" where
  "children_total_size mem cs =
     foldl (\<lambda>acc c. ts_length_add acc (ts_tree_total_size (mem c))) ts_length_zero cs"

definition ts_tree_make_node ::
  "TSParser \<Rightarrow> TSSymbol \<Rightarrow> addr list \<Rightarrow> bool \<Rightarrow> addr \<times> TSParser" where
  "ts_tree_make_node parser symb cs is_hidden =
     (let pad = (case cs of [] \<Rightarrow> ts_length_zero | c # _ \<Rightarrow> padding (trees parser c))
      in alloc_tree parser
           \<lparr>symbol = symb, padding = pad,
            sizeT = ts_length_sub (children_total_size (trees parser) cs) pad,
            children = cs,
            options = \<lparr>extra = False, hidden = is_hidden\<rparr>\<rparr>)"

definition ts_tree_make_error ::
  "TSParser \<Rightarrow> TSLength \<Rightarrow> TSLength \<Rightarrow> addr \<times> TSParser" where
  "ts_tree_make_error parser sz pad =
     alloc_tree parser
       \<lparr>symbol = ts_builtin_sym_error, padding = pad, sizeT = sz, children = [],
        options = no_options\<rparr>"

subsection \<open>Private functions of the driver\<close>

definition action_for :: "TSLanguage \<Rightarrow> TSStateId \<Rightarrow> TSSymbol \<Rightarrow> TSParseAction" where
  "action_for lang st symb = parse_table lang (st * symbol_count lang + symb)"

text \<open>The function \<^verbatim>\<open>lex\<close> of the driver.\<close>

definition lex_parser :: "TSParser \<Rightarrow> nat \<Rightarrow> TSParser" where
  "lex_parser parser lex_state =
     (case lex_fn (language parser) (lexer parser) lex_state of
        (cell, lx) \<Rightarrow>
          (case alloc_tree (parser\<lparr>lexer := lx\<rparr>) cell of
             (a, p) \<Rightarrow> p\<lparr>lookahead := Some a\<rparr>))"

text \<open>
  The state under which \<^verbatim>\<open>breakdown_stack\<close> puts a child back (\<^verbatim>\<open>next_state\<close>): the
  state the table shifts to from the state on top of the stack, or that top state itself
  when the action is not a shift.
\<close>

definition next_state :: "TSLanguage \<Rightarrow> TSStateId \<Rightarrow> TSSymbol \<Rightarrow> TSStateId" where
  "next_state lang st symb =
     (case action_for lang st symb of TSParseActionTypeShift s \<Rightarrow> s | _ \<Rightarrow> st)"

text \<open>
  The inner loop of \<^verbatim>\<open>breakdown_stack\<close>: children are put back while the position is
  left of the edit.
\<close>

fun put_back ::
  "TSLanguage \<Rightarrow> nat \<Rightarrow> store \<Rightarrow> addr list \<Rightarrow> TSStack \<Rightarrow> TSLength \<Rightarrow> TSStack \<times> TSLength" where
  "put_back lang edit_position mem [] st pos = (st, pos)"
| "put_back lang edit_position mem (child # rest) st pos =
     (if unat (chars pos) < edit_position then
        put_back lang edit_position mem rest
          (ts_stack_push st
             (next_state lang (ts_stack_top_state st) (symbol (mem child))) child)
          (ts_length_add pos (ts_tree_total_size (mem child)))
      else (st, pos))"

text \<open>
  One round of the outer loop of \<^verbatim>\<open>breakdown_stack\<close>, for a stack whose top node is
  \<open>n\<close>: the node is popped, and its children are put back.
\<close>

definition breakdown_pop ::
  "TSLanguage \<Rightarrow> nat \<Rightarrow> store \<Rightarrow> addr \<Rightarrow> TSStack \<Rightarrow> TSLength \<Rightarrow> TSStack \<times> TSLength" where
  "breakdown_pop lang edit_position mem n st pos =
     put_back lang edit_position mem (children (mem n)) (butlast st)
       (ts_length_sub pos (ts_tree_total_size (mem n)))"

text \<open>
  The outer loop. On a store whose nodes form a cycle it need not end, so it runs on
  fuel: \<open>None\<close> says the fuel ran out before the loop was left.
\<close>

fun breakdown_loop ::
  "nat \<Rightarrow> TSLanguage \<Rightarrow> nat \<Rightarrow> store \<Rightarrow> TSStack \<Rightarrow> TSLength \<Rightarrow> (TSStack \<times> TSLength) option" where
  "breakdown_loop 0 lang edit_position mem st pos = None"
| "breakdown_loop (Suc fuel) lang edit_position mem st pos =
     (case ts_stack_top_node st of
        None \<Rightarrow> Some (st, pos)
      | Some n \<Rightarrow>
          if unat (chars pos) < edit_position \<and> children (mem n) = [] then Some (st, pos)
          else (case breakdown_pop lang edit_position mem n st pos of
                  (st', pos') \<Rightarrow> breakdown_loop fuel lang edit_position mem st' pos'))"

definition breakdown_stack ::
  "nat \<Rightarrow> TSParser \<Rightarrow> TSInputEdit option \<Rightarrow> (TSLength \<times> TSParser) option" where
  "breakdown_stack fuel parser edit =
     (case edit of
        None \<Rightarrow> Some (ts_length_zero, parser\<lparr>stack := ts_stack_shrink (stack parser) 0\<rparr>)
      | Some e \<Rightarrow>
          (case breakdown_loop fuel (language parser) (position e) (trees parser)
                  (stack parser) (ts_stack_right_position (trees parser) (stack parser)) of
             None \<Rightarrow> None
           | Some (st, pos) \<Rightarrow> Some (pos, parser\<lparr>stack := st\<rparr>)))"

definition resize_error :: "TSParser \<Rightarrow> addr \<Rightarrow> TSParser" where
  "resize_error parser error =
     parser\<lparr>trees := (trees parser)(error := (trees parser error)
       \<lparr>sizeT := ts_length_sub
                   (ts_length_sub (token_start_position (lexer parser))
                      (ts_stack_right_position (trees parser) (stack parser)))
                   (padding (trees parser error))\<rparr>)\<rparr>"

definition shift :: "TSParser \<Rightarrow> TSStateId \<Rightarrow> fault + TSParser" where
  "shift parser parse_state =
     (case lookahead parser of
        None \<Rightarrow> Inl NullDereference
      | Some la \<Rightarrow>
          (let parse_state' =
                 (if ts_tree_is_extra (trees parser la)
                  then ts_stack_top_state (stack parser) else parse_state)
           in Inr (parser\<lparr>stack := ts_stack_push (stack parser) parse_state' la,
                          lookahead := next_lookahead parser,
                          next_lookahead := None\<rparr>)))"

definition shift_extra :: "TSParser \<Rightarrow> fault + TSParser" where
  "shift_extra parser =
     (case lookahead parser of
        None \<Rightarrow> Inl NullDereference
      | Some la \<Rightarrow>
          shift (parser\<lparr>trees := (trees parser)(la := ts_tree_set_extra (trees parser la))\<rparr>) 0)"

text \<open>
  \<^verbatim>\<open>size_t\<close> has 64 bits. The walk of \<^verbatim>\<open>reduce\<close> reads entry \<^verbatim>\<open>size - 1 - i\<close>; when
  \<open>i\<close> is not below the size the subtraction wraps around to an index past the entries.
\<close>

definition SIZE_MAX :: nat where
  "SIZE_MAX = 2 ^ 64 - 1"

function reduce_walk :: "store \<Rightarrow> TSStack \<Rightarrow> nat \<Rightarrow> nat \<Rightarrow> fault + nat" where
  "reduce_walk mem st i child_count =
     (if i < child_count then
        (if child_count = length st then Inr child_count
         else if length st \<le> i then Inl OutOfBounds
         else if ts_tree_is_extra (mem (node (st ! (length st - 1 - i))))
              then reduce_walk mem st (i + 1) ((child_count + 1) mod (SIZE_MAX + 1))
              else reduce_walk mem st (i + 1) child_count)
      else Inr child_count)"
  by pat_completeness auto
termination
  by (relation "measure (\<lambda>(mem, st, i, child_count). length st - i)") auto

declare reduce_walk.simps [simp del]

text \<open>
  After the walk, \<^verbatim>\<open>start_index = stack->size - child_count\<close>; with a count above the
  size the subtraction wraps around, and the children would be read past the entries.
\<close>

definition reduce :: "TSParser \<Rightarrow> TSSymbol \<Rightarrow> nat \<Rightarrow> fault + TSParser" where
  "reduce parser symb child_count =
     (let p1 = parser\<lparr>next_lookahead := lookahead parser\<rparr> in
      case reduce_walk (trees p1) (stack p1) 0 child_count of
        Inl f \<Rightarrow> Inl f
      | Inr cc \<Rightarrow>
          if length (stack p1) < cc then Inl OutOfBounds
          else
            (let start_index = length (stack p1) - cc;
                 cs = map (\<lambda>i. node (stack p1 ! (start_index + i))) [0..<cc];
                 is_hidden = hidden_symbol_flags (language p1) symb
             in case ts_tree_make_node p1 symb cs is_hidden of
                  (a, p2) \<Rightarrow>
                    Inr (p2\<lparr>lookahead := Some a,
                            stack := ts_stack_shrink (stack p2) (length (stack p2) - cc)\<rparr>)))"

definition reduce_extra :: "TSParser \<Rightarrow> TSSymbol \<Rightarrow> fault + TSParser" where
  "reduce_extra parser symb =
     (case reduce parser symb 1 of
        Inl f \<Rightarrow> Inl f
      | Inr p \<Rightarrow>
          (case lookahead p of
             None \<Rightarrow> Inl NullDereference
           | Some la \<Rightarrow> Inr (p\<lparr>trees := (trees p)(la := ts_tree_set_extra (trees p la))\<rparr>)))"

text \<open>
  The scan of \<^verbatim>\<open>handle_error\<close> over the entries from the top down (the list is the
  stack reversed): the first entry whose state shifts the error symbol into a state
  where the lookahead's symbol is not an error. The answer is the index of the entry
  in the stack and the state after the error.
\<close>

fun find_recovery ::
  "TSLanguage \<Rightarrow> TSSymbol option \<Rightarrow> TSStackEntry list \<Rightarrow> fault + (nat \<times> TSStateId) option" where
  "find_recovery lang la_sym [] = Inr None"
| "find_recovery lang la_sym (entry # below) =
     (case action_for lang (state entry) ts_builtin_sym_error of
        TSParseActionTypeShift state_after_error \<Rightarrow>
          (case la_sym of
             None \<Rightarrow> Inl NullDereference
           | Some s \<Rightarrow>
               if action_for lang state_after_error s \<noteq> TSParseActionTypeError
               then Inr (Some (length below, state_after_error))
               else find_recovery lang la_sym below)
      | _ \<Rightarrow> find_recovery lang la_sym below)"

definition lookahead_symbol :: "TSParser \<Rightarrow> TSSymbol option" where
  "lookahead_symbol parser = map_option (\<lambda>a. symbol (trees parser a)) (lookahead parser)"

definition recover_at :: "TSParser \<Rightarrow> addr \<Rightarrow> nat \<Rightarrow> TSStateId \<Rightarrow> fault + TSParser" where
  "recover_at parser error index state_after_error =
     (case lookahead parser of
        None \<Rightarrow> Inl NullDereference
      | Some la \<Rightarrow>
          (let p1 = parser\<lparr>stack := ts_stack_shrink (stack parser) (index + 1)\<rparr>;
               p2 = p1\<lparr>trees := (trees p1)(la := (trees p1 la)\<lparr>padding := ts_length_zero\<rparr>)\<rparr>;
               p3 = resize_error p2 error
           in Inr (p3\<lparr>stack := ts_stack_push (stack p3) state_after_error error\<rparr>)))"

definition fail_to_recover :: "TSParser \<Rightarrow> addr \<Rightarrow> TSParser" where
  "fail_to_recover parser error =
     (let p1 = resize_error parser error
      in p1\<lparr>stack := ts_stack_push (stack p1) 0 error\<rparr>)"

text \<open>
  The loop of \<^verbatim>\<open>handle_error\<close>. With a lexer that moves its cursor back it need not
  end, so it runs on fuel. The answer \<open>True\<close> is the C function's 1, \<open>False\<close> its 0.
\<close>

fun handle_error_loop :: "nat \<Rightarrow> addr \<Rightarrow> TSParser \<Rightarrow> (fault + bool \<times> TSParser) option" where
  "handle_error_loop 0 error parser = None"
| "handle_error_loop (Suc fuel) error parser =
     (case find_recovery (language parser) (lookahead_symbol parser) (rev (stack parser)) of
        Inl f \<Rightarrow> Some (Inl f)
      | Inr (Some (index, state_after_error)) \<Rightarrow>
          (case recover_at parser error index state_after_error of
             Inl f \<Rightarrow> Some (Inl f)
           | Inr p \<Rightarrow> Some (Inr (True, p)))
      | Inr None \<Rightarrow>
          (let prev_position = current_position (lexer parser);
               p1 = lex_parser parser (lex_error_state (language parser))
           in if ts_length_eq (current_position (lexer p1)) prev_position then
                (case ts_lexer_advance (lexer p1) of
                   (advanced, lx) \<Rightarrow>
                     if \<not> advanced
                     then Some (Inr (False, fail_to_recover (p1\<lparr>lexer := lx\<rparr>) error))
                     else handle_error_loop fuel error (p1\<lparr>lexer := lx\<rparr>))
              else handle_error_loop fuel error p1))"

definition handle_error :: "nat \<Rightarrow> TSParser \<Rightarrow> (fault + bool \<times> TSParser) option" where
  "handle_error fuel parser =
     (case lookahead parser of
        None \<Rightarrow> Some (Inl NullDereference)
      | Some error \<Rightarrow> handle_error_loop fuel error parser)"

definition get_root :: "TSParser \<Rightarrow> fault + addr option \<times> TSParser" where
  "get_root parser =
     (let p1 = (if length (stack parser) = 0
                then (case ts_tree_make_error parser ts_length_zero ts_length_zero of
                        (e, p) \<Rightarrow> p\<lparr>stack := ts_stack_push (stack p) 0 e\<rparr>)
                else parser)
      in case reduce p1 (ts_builtin_sym_document (language p1)) (length (stack p1)) of
           Inl f \<Rightarrow> Inl f
         | Inr p2 \<Rightarrow>
             (case lookahead p2 of
                None \<Rightarrow> Inl NullDereference
              | Some la \<Rightarrow>
                  (case shift (p2\<lparr>trees := (trees p2)(la := (trees p2 la)\<lparr>options := no_options\<rparr>)\<rparr>) 0 of
                     Inl f \<Rightarrow> Inl f
                   | Inr p3 \<Rightarrow>
                       if stack p3 = [] then Inl OutOfBounds
                       else Inr (Some (node (stack p3 ! 0)), p3))))"

subsection \<open>Public functions\<close>

definition ts_parser_make :: "TSLanguage \<Rightarrow> TSParser" where
  "ts_parser_make lang =
     \<lparr>lexer = ts_lexer_make, stack = ts_stack_make, lookahead = None, next_lookahead = None,
      language = lang,
      trees = (\<lambda>_. \<lparr>symbol = 0, padding = ts_length_zero, sizeT = ts_length_zero,
                     children = [], options = no_options\<rparr>),
      next_tree = 0\<rparr>"

text \<open>
  The head of the loop body of \<^verbatim>\<open>ts_parser_parse\<close>: the state on top of the stack, the
  lookahead (lexed if the slot is empty), and the action the table gives for them.
\<close>

definition fetch_lookahead :: "TSParser \<Rightarrow> TSParser" where
  "fetch_lookahead parser =
     (if lookahead parser = None
      then lex_parser parser (lex_states (language parser) (ts_stack_top_state (stack parser)))
      else parser)"

definition next_action :: "TSParser \<Rightarrow> fault + TSParseAction" where
  "next_action parser =
     (case lookahead_symbol (fetch_lookahead parser) of
        None \<Rightarrow> Inl NullDereference
      | Some s \<Rightarrow>
          Inr (action_for (language parser) (ts_stack_top_state (stack parser)) s))"

text \<open>
  One round of the loop: either the loop goes on with a new parser, or the function
  returns a tree pointer (null in the \<^verbatim>\<open>default\<close> branch).
\<close>

datatype step = Continue TSParser | Return "addr option" TSParser

definition after_recovery :: "(fault + bool \<times> TSParser) option \<Rightarrow> (fault + step) option" where
  "after_recovery r =
     (case r of
        None \<Rightarrow> None
      | Some (Inl f) \<Rightarrow> Some (Inl f)
      | Some (Inr (recovered, p)) \<Rightarrow>
          if \<not> recovered
          then (case get_root p of Inl f \<Rightarrow> Some (Inl f)
                | Inr (root, p') \<Rightarrow> Some (Inr (Return root p')))
          else Some (Inr (Continue p)))"

definition continue_with :: "fault + TSParser \<Rightarrow> (fault + step) option" where
  "continue_with r = (case r of Inl f \<Rightarrow> Some (Inl f) | Inr p \<Rightarrow> Some (Inr (Continue p)))"

definition parse_step :: "nat \<Rightarrow> TSParser \<Rightarrow> (fault + step) option" where
  "parse_step fuel parser =
     (let p = fetch_lookahead parser in
      case next_action parser of
        Inl f \<Rightarrow> Some (Inl f)
      | Inr action \<Rightarrow>
          (case action of
             TSParseActionTypeShift s \<Rightarrow>
               if lookahead_symbol p = Some ts_builtin_sym_error
               then after_recovery (handle_error fuel p)
               else continue_with (shift p s)
           | TSParseActionTypeShiftExtra \<Rightarrow> continue_with (shift_extra p)
           | TSParseActionTypeReduce symb child_count \<Rightarrow> continue_with (reduce p symb child_count)
           | TSParseActionTypeReduceExtra symb \<Rightarrow> continue_with (reduce_extra p symb)
           | TSParseActionTypeAccept \<Rightarrow>
               (case get_root p of Inl f \<Rightarrow> Some (Inl f)
                | Inr (root, p') \<Rightarrow> Some (Inr (Return root p')))
           | TSParseActionTypeError \<Rightarrow> after_recovery (handle_error fuel p)
           | TSParseActionTypeOther \<Rightarrow> Some (Inr (Return None p))))"

text \<open>
  The loop of \<^verbatim>\<open>ts_parser_parse\<close>, on fuel: \<open>None\<close> says that the fuel ran out before
  the function returned. \<open>parse_begin\<close> is what the function does before the loop.
\<close>

fun parse_loop :: "nat \<Rightarrow> TSParser \<Rightarrow> (fault + addr option \<times> TSParser) option" where
  "parse_loop 0 parser = None"
| "parse_loop (Suc fuel) parser =
     (case parse_step fuel parser of
        None \<Rightarrow> None
      | Some (Inl f) \<Rightarrow> Some (Inl f)
      | Some (Inr (Return root p)) \<Rightarrow> Some (Inr (root, p))
      | Some (Inr (Continue p)) \<Rightarrow> parse_loop fuel p)"

definition parse_begin ::
  "nat \<Rightarrow> TSParser \<Rightarrow> string \<Rightarrow> TSInputEdit option \<Rightarrow> TSParser option" where
  "parse_begin fuel parser inp edit =
     (case breakdown_stack fuel (parser\<lparr>lookahead := None, next_lookahead := None\<rparr>) edit of
        None \<Rightarrow> None
      | Some (pos, p) \<Rightarrow>
          Some (p\<lparr>lexer := ts_lexer_reset ((lexer p)\<lparr>input := inp\<rparr>) pos\<rparr>))"

definition ts_parser_parse ::
  "nat \<Rightarrow> TSParser \<Rightarrow> string \<Rightarrow> TSInputEdit option \<Rightarrow> (fault + addr option \<times> TSParser) option" where
  "ts_parser_parse fuel parser inp edit =
     (case parse_begin fuel parser inp edit of
        None \<Rightarrow> None
      | Some p \<Rightarrow> parse_loop fuel p)"

subsection \<open>Counting extras\<close>

text \<open>
  The number of extra nodes among the \<open>k\<close> entries nearest the top of a stack; the
  effect of \<^verbatim>\<open>reduce\<close> is stated with it.
\<close>

definition extras_among_top :: "store \<Rightarrow> TSStack \<Rightarrow> nat \<Rightarrow> nat" where
  "extras_among_top mem st k =
     length (filter (\<lambda>e. ts_tree_is_extra (mem (node e))) (take k (rev st)))"

subsection \<open>Recovery states\<close>

text \<open>
  Whether recovery can resume at a stack entry, for a lookahead of symbol \<open>la_symb\<close>:
  the entry's state shifts the error symbol into a state whose action on the lookahead's
  symbol is not an error. The answer is that state. The claims on recovery are stated
  with it.
\<close>

definition recovery_state :: "TSLanguage \<Rightarrow> TSSymbol \<Rightarrow> TSStackEntry \<Rightarrow> TSStateId option" where
  "recovery_state lang la_symb entry =
     (case action_for lang (state entry) ts_builtin_sym_error of
        TSParseActionTypeShift state_after_error \<Rightarrow>
          if action_for lang state_after_error la_symb \<noteq> TSParseActionTypeError
          then Some state_after_error else None
      | _ \<Rightarrow> None)"

subsection \<open>Lexers that move forward\<close>



subsection \<open>A small language for examples\<close>

text \<open>
  Symbols: 0 the error, 1 the letter \<open>a\<close>, 2 the semicolon, 3 the end of the input,
  4 the document. The lexer reads one character per token and skips nothing; every
  other character is an error token. At the end of the input it gives the end token,
  of length zero.
\<close>

definition demo_leaf :: "TSSymbol \<Rightarrow> 32 word \<Rightarrow> TSTree" where
  "demo_leaf symb n =
     \<lparr>symbol = symb, padding = ts_length_zero, sizeT = \<lparr>chars = n, extended = n\<rparr>,
      children = [], options = no_options\<rparr>"

definition demo_symbol :: "char \<Rightarrow> TSSymbol" where
  "demo_symbol c = (if c = CHR ''a'' then 1 else if c = CHR '';'' then 2 else 0)"

definition demo_lex :: "TSLexer \<Rightarrow> nat \<Rightarrow> TSTree \<times> TSLexer" where
  "demo_lex lx lex_state =
     (if unat (chars (current_position lx)) < length (input lx)
      then (demo_leaf (demo_symbol (input lx ! unat (chars (current_position lx)))) 1,
            lx\<lparr>token_start_position := current_position lx,
               current_position :=
                 ts_length_add (current_position lx) \<lparr>chars = 1, extended = 1\<rparr>\<rparr>)
      else (demo_leaf 3 0, lx\<lparr>token_start_position := current_position lx\<rparr>))"

definition demo_language :: "(nat \<Rightarrow> TSParseAction) \<Rightarrow> TSLanguage" where
  "demo_language table =
     \<lparr>symbol_count = 5, parse_table = table, lex_states = (\<lambda>_. 0), lex_error_state = 1,
      lex_fn = demo_lex, hidden_symbol_flags = (\<lambda>symb. symb = 3)\<rparr>"

text \<open>
  A table with a recovery rule: state 0 shifts \<open>a\<close> into state 1; state 1 shifts the
  error into state 2; state 2 shifts the semicolon into state 3; state 3 accepts at
  the end. Every other cell is an error.
\<close>

definition recover_table :: "nat \<Rightarrow> TSParseAction" where
  "recover_table i =
     (if i = 1 then TSParseActionTypeShift 1
      else if i = 5 then TSParseActionTypeShift 2
      else if i = 12 then TSParseActionTypeShift 3
      else if i = 18 then TSParseActionTypeAccept
      else TSParseActionTypeError)"

text \<open>
  A table with an extra token and a reduction: state 0 shifts \<open>a\<close> into state 1; state 1
  shifts a further \<open>a\<close> as an extra and, at the end of the input, reduces one child
  (and the extras above it) to a node of symbol 2; state 0 shifts that node into state
  2, which accepts at the end.
\<close>

definition extra_table :: "nat \<Rightarrow> TSParseAction" where
  "extra_table i =
     (if i = 1 then TSParseActionTypeShift 1
      else if i = 6 then TSParseActionTypeShiftExtra
      else if i = 8 then TSParseActionTypeReduce 2 1
      else if i = 2 then TSParseActionTypeShift 2
      else if i = 13 then TSParseActionTypeAccept
      else TSParseActionTypeError)"

text \<open>A table that answers every lookup with a reduction of no children.\<close>

definition reduce_table :: "nat \<Rightarrow> TSParseAction" where
  "reduce_table i = TSParseActionTypeReduce 1 0"

text \<open>The parser as \<^verbatim>\<open>ts_parser_parse\<close> enters its loop on a fresh parser, without edit.\<close>

definition loop_entry :: "TSLanguage \<Rightarrow> string \<Rightarrow> TSParser" where
  "loop_entry lang inp =
     (ts_parser_make lang)\<lparr>lexer := ts_lexer_reset (ts_lexer_make\<lparr>input := inp\<rparr>) ts_length_zero\<rparr>"

text \<open>
  A store of three nodes: node 0 is a semicolon, node 1 an \<open>a\<close> marked extra, node 2 a
  node of symbol 3 with the children 0 and 1. \<open>demo_parser st\<close> is a parser of the
  recovery language with that store and the stack \<open>st\<close>.
\<close>

definition demo_store :: store where
  "demo_store =
     (\<lambda>_. demo_leaf 1 1)
       (0 := demo_leaf 2 1,
        1 := ts_tree_set_extra (demo_leaf 1 1),
        2 := (demo_leaf 3 2)\<lparr>children := [0, 1]\<rparr>)"

definition demo_parser :: "TSStack \<Rightarrow> TSParser" where
  "demo_parser st =
     (ts_parser_make (demo_language recover_table))\<lparr>stack := st, trees := demo_store, next_tree := 3\<rparr>"

text \<open>
  A lexer that stops at a character that starts no token: it gives an error token of
  length zero and leaves the cursor where it is, in every lex state; on the other
  characters, and at the end of the input, it is \<open>demo_lex\<close>. \<open>strict_language\<close> is the
  example language with that lexer. \<open>shifted_a inp\<close> is the parser of that language, with
  the recovery table, after the round of the parse loop that shifts the \<open>a\<close> at the head of
  the input \<open>inp\<close>: node 0 is that token, under state 1.
\<close>

definition strict_lex :: "TSLexer \<Rightarrow> nat \<Rightarrow> TSTree \<times> TSLexer" where
  "strict_lex lx lex_state =
     (if unat (chars (current_position lx)) < length (input lx)
         \<and> demo_symbol (input lx ! unat (chars (current_position lx))) = 0
      then (demo_leaf 0 0, lx\<lparr>token_start_position := current_position lx\<rparr>)
      else demo_lex lx lex_state)"

definition strict_language :: "(nat \<Rightarrow> TSParseAction) \<Rightarrow> TSLanguage" where
  "strict_language table = (demo_language table)\<lparr>lex_fn := strict_lex\<rparr>"

definition shifted_a :: "string \<Rightarrow> TSParser" where
  "shifted_a inp =
     (ts_parser_make (strict_language recover_table))
       \<lparr>lexer := \<lparr>input = inp, current_position = \<lparr>chars = 1, extended = 1\<rparr>,
                  token_start_position = ts_length_zero\<rparr>,
        stack := [\<lparr>state = 1, node = 0\<rparr>],
        trees := (trees (ts_parser_make (strict_language recover_table)))(0 := demo_leaf 1 1),
        next_tree := 1\<rparr>"

text \<open>
  The error cells of a table for the grammar \<^verbatim>\<open>S -> a R\<close>, \<^verbatim>\<open>R -> empty | error R\<close>: state 0
  shifts \<open>a\<close> into state 1; state 1 shifts the error symbol into state 2; state 2 shifts
  the error symbol into state 2 again. Every other cell is an error. \<open>error_loops\<close>
  describes the parsers on which this table keeps recovering: the top state is 1 or 2
  and the lookahead is an error.
\<close>

definition error_loop_table :: "nat \<Rightarrow> TSParseAction" where
  "error_loop_table i =
     (if i = 1 then TSParseActionTypeShift 1
      else if i = 5 then TSParseActionTypeShift 2
      else if i = 10 then TSParseActionTypeShift 2
      else TSParseActionTypeError)"

definition error_loops :: "TSParser \<Rightarrow> bool" where
  "error_loops p \<longleftrightarrow>
     language p = demo_language error_loop_table \<and> stack p \<noteq> []
     \<and> (state (last (stack p)) = 1 \<or> state (last (stack p)) = 2)
     \<and> lookahead_symbol (fetch_lookahead p) = Some 0"

section \<open>Facts about the model\<close>

subsection \<open>Evaluation of the examples\<close>

lemmas demo_defs =
  demo_parser_def demo_store_def demo_leaf_def demo_language_def recover_table_def
  ts_parser_make_def ts_lexer_make_def ts_stack_make_def no_options_def ts_length_zero_def
  ts_tree_set_extra_def ts_tree_is_extra_def

lemmas run_defs =
  parse_begin_def breakdown_stack_def loop_entry_def parse_step_def fetch_lookahead_def
  next_action_def lookahead_symbol_def lex_parser_def alloc_tree_def action_for_def
  continue_with_def after_recovery_def
  ts_lexer_reset_def ts_stack_shrink_def ts_stack_top_state_def ts_stack_push_def
  demo_lex_def demo_symbol_def ts_length_add_def reduce_table_def
  reduce_def reduce_walk.simps ts_tree_make_node_def children_total_size_def ts_length_sub_def
  sub_u32_def Let_def

lemmas recovery_defs =
  recovery_state_def action_for_def ts_builtin_sym_error_def lookahead_symbol_def
  lex_parser_def alloc_tree_def demo_lex_def ts_length_eq_def
  ts_lexer_advance_def ts_lexer_reset_def ts_length_add_def

lemmas strict_defs = strict_lex_def strict_language_def shifted_a_def

lemmas breakdown_defs =
  breakdown_pop_def breakdown_stack_def ts_stack_top_node_def ts_stack_top_state_def
  ts_stack_push_def ts_stack_right_position_def ts_tree_total_size_def ts_length_add_def
  ts_length_sub_def sub_u32_def action_for_def ts_stack_shrink_def next_state_def

lemmas parse_defs =
  ts_parser_parse_def handle_error_def recover_at_def fail_to_recover_def resize_error_def
  find_recovery.simps get_root_def shift_def shift_extra_def ts_tree_make_error_def
  ts_stack_right_position_def ts_tree_total_size_def ts_tree_is_extra_def
  ts_builtin_sym_error_def ts_builtin_sym_document_def ts_length_eq_def ts_lexer_advance_def

text \<open>The parser \<open>shifted_a\<close> is what the first round of the parse loop leaves.\<close>

lemma shifted_a_reached:
  "parse_step fuel (loop_entry (strict_language recover_table) (CHR ''a'' # rest)) =
     Some (Inr (Continue (shifted_a (CHR ''a'' # rest))))"
  by (simp add: run_defs demo_defs strict_defs shift_def ts_builtin_sym_error_def)

subsection \<open>The walk of \<^verbatim>\<open>reduce\<close>\<close>

lemma extras_among_top_Suc:
  assumes "i < length st"
  shows "extras_among_top mem st (Suc i) =
           extras_among_top mem st i +
           (if ts_tree_is_extra (mem (node (st ! (length st - 1 - i)))) then 1 else 0)"
proof -
  have "take (Suc i) (rev st) = take i (rev st) @ [rev st ! i]"
    using assms by (simp add: take_Suc_conv_app_nth)
  moreover have "rev st ! i = st ! (length st - 1 - i)"
    using assms by (simp add: rev_nth)
  ultimately show ?thesis
    by (simp add: extras_among_top_def)
qed

lemma reduce_walk_counts:
  assumes "i \<le> cc" and "cc \<le> length st" and "length st \<le> SIZE_MAX"
    and "cc = n + extras_among_top mem st i"
  shows "\<exists>k. reduce_walk mem st i cc = Inr (n + extras_among_top mem st k)
           \<and> i \<le> k \<and> k \<le> n + extras_among_top mem st k
           \<and> n + extras_among_top mem st k \<le> length st
           \<and> (k = n + extras_among_top mem st k
                \<or> n + extras_among_top mem st k = length st)
           \<and> (\<forall>j. i \<le> j \<and> j < k \<longrightarrow>
                  j < n + extras_among_top mem st j
                  \<and> n + extras_among_top mem st j \<noteq> length st)"
  using assms
proof (induction mem st i cc rule: reduce_walk.induct)
  case (1 mem st i cc)
  let ?ex = "extras_among_top mem st"
  show ?case
  proof (cases "i < cc \<and> cc \<noteq> length st")
    case False
    then have "reduce_walk mem st i cc = Inr cc"
      by (subst reduce_walk.simps) auto
    with False "1.prems" show ?thesis
      by (intro exI[of _ i]) auto
  next
    case True
    then have lt: "i < length st" and cclt: "cc < length st"
      using "1.prems" by auto
    have wrap: "(cc + 1) mod (SIZE_MAX + 1) = cc + 1"
      using cclt "1.prems"(3) by simp
    show ?thesis
    proof (cases "ts_tree_is_extra (mem (node (st ! (length st - 1 - i))))")
      case ex: True
      have step: "reduce_walk mem st i cc = reduce_walk mem st (i + 1) (cc + 1)"
        using True lt ex wrap by (subst reduce_walk.simps) simp
      have "\<exists>k. reduce_walk mem st (i + 1) ((cc + 1) mod (SIZE_MAX + 1)) = Inr (n + ?ex k)
           \<and> i + 1 \<le> k \<and> k \<le> n + ?ex k \<and> n + ?ex k \<le> length st
           \<and> (k = n + ?ex k \<or> n + ?ex k = length st)
           \<and> (\<forall>j. i + 1 \<le> j \<and> j < k \<longrightarrow> j < n + ?ex j \<and> n + ?ex j \<noteq> length st)"
        using True lt ex cclt "1.prems" wrap
        by (intro "1.IH"(1)) (auto simp: extras_among_top_Suc)
      then obtain k where k: "reduce_walk mem st (i + 1) (cc + 1) = Inr (n + ?ex k)"
        "i + 1 \<le> k" "k \<le> n + ?ex k" "n + ?ex k \<le> length st"
        "k = n + ?ex k \<or> n + ?ex k = length st"
        "\<forall>j. i + 1 \<le> j \<and> j < k \<longrightarrow> j < n + ?ex j \<and> n + ?ex j \<noteq> length st"
        using wrap by auto
      have "\<forall>j. i \<le> j \<and> j < k \<longrightarrow> j < n + ?ex j \<and> n + ?ex j \<noteq> length st"
      proof (intro allI impI)
        fix j assume j: "i \<le> j \<and> j < k"
        show "j < n + ?ex j \<and> n + ?ex j \<noteq> length st"
        proof (cases "j = i")
          case True
          then show ?thesis using \<open>i < cc \<and> cc \<noteq> length st\<close> "1.prems"(4) by simp
        next
          case False
          then show ?thesis using j k(6) by simp
        qed
      qed
      with k step show ?thesis
        by (intro exI[of _ k]) auto
    next
      case nex: False
      have step: "reduce_walk mem st i cc = reduce_walk mem st (i + 1) cc"
        using True lt nex by (subst reduce_walk.simps) simp
      have "\<exists>k. reduce_walk mem st (i + 1) cc = Inr (n + ?ex k)
           \<and> i + 1 \<le> k \<and> k \<le> n + ?ex k \<and> n + ?ex k \<le> length st
           \<and> (k = n + ?ex k \<or> n + ?ex k = length st)
           \<and> (\<forall>j. i + 1 \<le> j \<and> j < k \<longrightarrow> j < n + ?ex j \<and> n + ?ex j \<noteq> length st)"
        using True lt nex cclt "1.prems"
        by (intro "1.IH"(2)) (auto simp: extras_among_top_Suc)
      then obtain k where k: "reduce_walk mem st (i + 1) cc = Inr (n + ?ex k)"
        "i + 1 \<le> k" "k \<le> n + ?ex k" "n + ?ex k \<le> length st"
        "k = n + ?ex k \<or> n + ?ex k = length st"
        "\<forall>j. i + 1 \<le> j \<and> j < k \<longrightarrow> j < n + ?ex j \<and> n + ?ex j \<noteq> length st"
        by auto
      have "\<forall>j. i \<le> j \<and> j < k \<longrightarrow> j < n + ?ex j \<and> n + ?ex j \<noteq> length st"
      proof (intro allI impI)
        fix j assume j: "i \<le> j \<and> j < k"
        show "j < n + ?ex j \<and> n + ?ex j \<noteq> length st"
        proof (cases "j = i")
          case True
          then show ?thesis using \<open>i < cc \<and> cc \<noteq> length st\<close> "1.prems"(4) by simp
        next
          case False
          then show ?thesis using j k(6) by simp
        qed
      qed
      with k step show ?thesis
        by (intro exI[of _ k]) auto
    qed
  qed
qed

lemma map_nth_drop:
  "map (\<lambda>i. f (xs ! (length xs - c + i))) [0..<c] = map f (drop (length xs - c) xs)" if "c \<le> length xs"
  using that by (intro nth_equalityI) auto

lemma map_nth_drop2:
  "map (\<lambda>i. f (xs ! (length xs + i - c))) [0..<c] = map f (drop (length xs - c) xs)" if "c \<le> length xs"
  using that by (intro nth_equalityI) auto

lemma reduce_walk_faults:
  assumes "length st < cc" and "i \<le> length st" and "cc + (length st - i) \<le> SIZE_MAX"
  shows "reduce_walk mem st i cc = Inl OutOfBounds"
  using assms
proof (induction mem st i cc rule: reduce_walk.induct)
  case (1 mem st i cc)
  show ?case
  proof (cases "i = length st")
    case True
    with "1.prems" show ?thesis
      by (subst reduce_walk.simps) simp
  next
    case False
    then have lt: "i < length st" using "1.prems" by simp
    have wrap: "(cc + 1) mod (SIZE_MAX + 1) = cc + 1"
      using lt "1.prems" by simp
    show ?thesis
    proof (cases "ts_tree_is_extra (mem (node (st ! (length st - 1 - i))))")
      case True
      have "reduce_walk mem st (i + 1) ((cc + 1) mod (SIZE_MAX + 1)) = Inl OutOfBounds"
        using lt True "1.prems" wrap by (intro "1.IH"(1)) auto
      with lt True "1.prems" show ?thesis
        by (subst reduce_walk.simps) simp
    next
      case False
      have "reduce_walk mem st (i + 1) cc = Inl OutOfBounds"
        using lt False "1.prems" by (intro "1.IH"(2)) auto
      with lt False "1.prems" show ?thesis
        by (subst reduce_walk.simps) simp
    qed
  qed
qed

lemma reduce_result:
  assumes "reduce_walk (trees parser) (stack parser) 0 child_count = Inr cc"
    and "cc \<le> length (stack parser)"
  shows "reduce parser symb child_count =
     Inr (parser\<lparr>next_lookahead := lookahead parser,
                 trees := (trees parser)(next_tree parser :=
                   \<lparr>symbol = symb,
                    padding = (case map node (drop (length (stack parser) - cc) (stack parser)) of
                                 [] \<Rightarrow> ts_length_zero | c # _ \<Rightarrow> padding (trees parser c)),
                    sizeT = ts_length_sub
                       (children_total_size (trees parser)
                          (map node (drop (length (stack parser) - cc) (stack parser))))
                       (case map node (drop (length (stack parser) - cc) (stack parser)) of
                          [] \<Rightarrow> ts_length_zero | c # _ \<Rightarrow> padding (trees parser c)),
                    children = map node (drop (length (stack parser) - cc) (stack parser)),
                    options = \<lparr>extra = False, hidden = hidden_symbol_flags (language parser) symb\<rparr>\<rparr>),
                 next_tree := next_tree parser + 1,
                 lookahead := Some (next_tree parser),
                 stack := take (length (stack parser) - cc) (stack parser)\<rparr>)"
  using assms
  by (simp add: reduce_def Let_def ts_tree_make_node_def alloc_tree_def ts_stack_shrink_def
      map_nth_drop map_nth_drop2 cong: list.case_cong)

subsection \<open>Putting children back\<close>

lemma put_back_entries:
  "put_back lang edit_position mem cs st pos = (st', pos') \<Longrightarrow>
   \<exists>new. st' = st @ new \<and> map node new = take (length new) cs
     \<and> (\<forall>j < length new.
           state (new ! j) =
             next_state lang (ts_stack_top_state (st @ take j new)) (symbol (mem (cs ! j))))"
proof (induction cs arbitrary: st pos)
  case Nil
  then show ?case by simp
next
  case (Cons c cs)
  show ?case
  proof (cases "unat (chars pos) < edit_position")
    case False
    with Cons.prems show ?thesis by simp
  next
    case True
    define e where
      "e = \<lparr>state = next_state lang (ts_stack_top_state st) (symbol (mem c)), node = c\<rparr>"
    have "put_back lang edit_position mem cs (st @ [e])
            (ts_length_add pos (ts_tree_total_size (mem c))) = (st', pos')"
      using Cons.prems True by (simp add: e_def ts_stack_push_def)
    from Cons.IH[OF this] obtain new where new: "st' = (st @ [e]) @ new"
      "map node new = take (length new) cs"
      "\<forall>j < length new.
           state (new ! j) =
             next_state lang (ts_stack_top_state ((st @ [e]) @ take j new)) (symbol (mem (cs ! j)))"
      by blast
    have "\<forall>j < length (e # new).
           state ((e # new) ! j) =
             next_state lang (ts_stack_top_state (st @ take j (e # new)))
               (symbol (mem ((c # cs) ! j)))"
    proof (intro allI impI)
      fix j assume j: "j < length (e # new)"
      show "state ((e # new) ! j) =
             next_state lang (ts_stack_top_state (st @ take j (e # new)))
               (symbol (mem ((c # cs) ! j)))"
      proof (cases j)
        case 0
        then show ?thesis by (simp add: e_def)
      next
        case (Suc i)
        then show ?thesis using new(3) j by simp
      qed
    qed
    with new(1,2) show ?thesis
      by (intro exI[of _ "e # new"]) (simp add: e_def)
  qed
qed

subsection \<open>Finalization\<close>

lemma reduce_walk_whole: "st \<noteq> [] \<Longrightarrow> reduce_walk mem st 0 (length st) = Inr (length st)"
  by (subst reduce_walk.simps) simp

lemma reduce_whole_stack:
  assumes "stack parser \<noteq> []"
  shows "reduce parser symb (length (stack parser)) =
     Inr (parser\<lparr>next_lookahead := lookahead parser,
                 trees := (trees parser)(next_tree parser :=
                   \<lparr>symbol = symb,
                    padding = padding (trees parser (node (hd (stack parser)))),
                    sizeT = ts_length_sub
                       (children_total_size (trees parser) (map node (stack parser)))
                       (padding (trees parser (node (hd (stack parser))))),
                    children = map node (stack parser),
                    options = \<lparr>extra = False, hidden = hidden_symbol_flags (language parser) symb\<rparr>\<rparr>),
                 next_tree := next_tree parser + 1,
                 lookahead := Some (next_tree parser),
                 stack := []\<rparr>)"
proof -
  from assms obtain e es where "stack parser = e # es"
    by (cases "stack parser") auto
  then show ?thesis
    using reduce_result[OF reduce_walk_whole[OF assms, of "trees parser"], of symb]
    by simp
qed

lemma get_root_result:
  "(stack parser \<noteq> [] \<longrightarrow>
      (\<exists>p'. get_root parser = Inr (Some (next_tree parser), p')
         \<and> stack p' = [\<lparr>state = 0, node = next_tree parser\<rparr>]
         \<and> node (stack p' ! 0) = next_tree parser
         \<and> symbol (trees p' (next_tree parser)) = ts_builtin_sym_document (language parser)
         \<and> children (trees p' (next_tree parser)) = map node (stack parser)
         \<and> options (trees p' (next_tree parser)) = no_options
         \<and> lookahead p' = lookahead parser \<and> next_lookahead p' = None))
   \<and> (stack parser = [] \<longrightarrow>
      (\<exists>p'. get_root parser = Inr (Some (next_tree parser + 1), p')
         \<and> stack p' = [\<lparr>state = 0, node = next_tree parser + 1\<rparr>]
         \<and> node (stack p' ! 0) = next_tree parser + 1
         \<and> symbol (trees p' (next_tree parser + 1)) = ts_builtin_sym_document (language parser)
         \<and> children (trees p' (next_tree parser + 1)) = [next_tree parser]
         \<and> options (trees p' (next_tree parser + 1)) = no_options
         \<and> trees p' (next_tree parser) =
              \<lparr>symbol = ts_builtin_sym_error, padding = ts_length_zero, sizeT = ts_length_zero,
               children = [], options = no_options\<rparr>
         \<and> lookahead p' = lookahead parser \<and> next_lookahead p' = None))"
proof (intro conjI impI)
  assume ne: "stack parser \<noteq> []"
  show "\<exists>p'. get_root parser = Inr (Some (next_tree parser), p')
         \<and> stack p' = [\<lparr>state = 0, node = next_tree parser\<rparr>]
         \<and> node (stack p' ! 0) = next_tree parser
         \<and> symbol (trees p' (next_tree parser)) = ts_builtin_sym_document (language parser)
         \<and> children (trees p' (next_tree parser)) = map node (stack parser)
         \<and> options (trees p' (next_tree parser)) = no_options
         \<and> lookahead p' = lookahead parser \<and> next_lookahead p' = None"
    using ne
    by (simp add: get_root_def reduce_whole_stack shift_def ts_tree_is_extra_def
        no_options_def ts_stack_push_def)
next
  assume em: "stack parser = []"
  let ?p1 = "parser\<lparr>trees := (trees parser)(next_tree parser :=
                 \<lparr>symbol = ts_builtin_sym_error, padding = ts_length_zero,
                  sizeT = ts_length_zero, children = [], options = no_options\<rparr>),
               next_tree := next_tree parser + 1,
               stack := [\<lparr>state = 0, node = next_tree parser\<rparr>]\<rparr>"
  have ne: "stack ?p1 \<noteq> []" by simp
  have gr: "get_root parser =
      (case reduce ?p1 (ts_builtin_sym_document (language ?p1)) (length (stack ?p1)) of
           Inl f \<Rightarrow> Inl f
         | Inr p2 \<Rightarrow>
             (case lookahead p2 of
                None \<Rightarrow> Inl NullDereference
              | Some la \<Rightarrow>
                  (case shift (p2\<lparr>trees := (trees p2)(la := (trees p2 la)\<lparr>options := no_options\<rparr>)\<rparr>) 0 of
                     Inl f \<Rightarrow> Inl f
                   | Inr p3 \<Rightarrow>
                       if stack p3 = [] then Inl OutOfBounds
                       else Inr (Some (node (stack p3 ! 0)), p3))))"
    using em
    by (simp add: get_root_def ts_tree_make_error_def alloc_tree_def ts_stack_push_def)
  show "\<exists>p'. get_root parser = Inr (Some (next_tree parser + 1), p')
         \<and> stack p' = [\<lparr>state = 0, node = next_tree parser + 1\<rparr>]
         \<and> node (stack p' ! 0) = next_tree parser + 1
         \<and> symbol (trees p' (next_tree parser + 1)) = ts_builtin_sym_document (language parser)
         \<and> children (trees p' (next_tree parser + 1)) = [next_tree parser]
         \<and> options (trees p' (next_tree parser + 1)) = no_options
         \<and> trees p' (next_tree parser) =
              \<lparr>symbol = ts_builtin_sym_error, padding = ts_length_zero, sizeT = ts_length_zero,
               children = [], options = no_options\<rparr>
         \<and> lookahead p' = lookahead parser \<and> next_lookahead p' = None"
    unfolding gr reduce_whole_stack[OF ne]
    by (simp add: shift_def ts_tree_is_extra_def no_options_def ts_stack_push_def)
qed

lemma get_root_returns:
  "\<exists>root p'. get_root parser = Inr (Some root, p') \<and> stack p' = [\<lparr>state = 0, node = root\<rparr>]"
  using get_root_result[of parser] by (cases "stack parser = []") auto

subsection \<open>The scan of the stack in recovery\<close>

lemma find_recovery_step:
  "find_recovery lang (Some s) (entry # below) =
     (case recovery_state lang s entry of
        Some s' \<Rightarrow> Inr (Some (length below, s'))
      | None \<Rightarrow> find_recovery lang (Some s) below)"
  by (simp add: recovery_state_def split: TSParseAction.split)

lemma find_recovery_none:
  "\<forall>e \<in> set st. recovery_state lang s e = None \<Longrightarrow>
     find_recovery lang (Some s) (rev st) = Inr None"
proof (induction st rule: rev_induct)
  case Nil
  then show ?case by simp
next
  case (snoc e st)
  then show ?case by (simp add: find_recovery_step del: find_recovery.simps)
qed

lemma find_recovery_found:
  assumes "idx < length st"
    and "recovery_state lang s (st ! idx) = Some s'"
    and "\<forall>j. idx < j \<and> j < length st \<longrightarrow> recovery_state lang s (st ! j) = None"
  shows "find_recovery lang (Some s) (rev st) = Inr (Some (idx, s'))"
  using assms
proof (induction st rule: rev_induct)
  case Nil
  then show ?case by simp
next
  case (snoc e st)
  show ?case
  proof (cases "idx = length st")
    case True
    with snoc.prems show ?thesis
      by (simp add: find_recovery_step del: find_recovery.simps)
  next
    case False
    then have lt: "idx < length st" using snoc.prems by simp
    have top: "recovery_state lang s e = None"
      using snoc.prems(3)[rule_format, of "length st"] lt by simp
    have below: "\<forall>j. idx < j \<and> j < length st \<longrightarrow> recovery_state lang s (st ! j) = None"
    proof (intro allI impI)
      fix j assume "idx < j \<and> j < length st"
      then show "recovery_state lang s (st ! j) = None"
        using snoc.prems(3)[rule_format, of j] by (simp add: nth_append)
    qed
    have "find_recovery lang (Some s) (rev st) = Inr (Some (idx, s'))"
      using snoc.IH[OF lt _ below] snoc.prems(2) lt by (simp add: nth_append)
    with top show ?thesis
      by (simp add: find_recovery_step del: find_recovery.simps)
  qed
qed

lemma ts_lexer_advance_cases:
  "(unat (chars (current_position lx)) < length (input lx) \<longrightarrow>
      snd (ts_lexer_advance lx) =
        lx\<lparr>current_position := ts_length_add (current_position lx) \<lparr>chars = 1, extended = 1\<rparr>\<rparr>)
   \<and> (length (input lx) \<le> unat (chars (current_position lx)) \<longrightarrow> snd (ts_lexer_advance lx) = lx)
   \<and> fst (ts_lexer_advance lx) =
        (unat (chars (current_position (snd (ts_lexer_advance lx))))
           < length (input (snd (ts_lexer_advance lx))))"
  by (simp add: ts_lexer_advance_def Let_def)

lemma failed_recovery_returns:
  assumes "handle_error fuel (fetch_lookahead q) = Some (Inr (False, qf))"
    and "next_action q = Inr TSParseActionTypeError
         \<or> (next_action q = Inr (TSParseActionTypeShift t)
             \<and> lookahead_symbol (fetch_lookahead q) = Some ts_builtin_sym_error)"
  shows "\<exists>root pr. get_root qf = Inr (Some root, pr)
           \<and> parse_step fuel q = Some (Inr (Return (Some root) pr))
           \<and> parse_loop (Suc fuel) q = Some (Inr (Some root, pr))"
proof -
  obtain root pr where g: "get_root qf = Inr (Some root, pr)"
    using get_root_returns[of qf] by auto
  have "parse_step fuel q = Some (Inr (Return (Some root) pr))"
    using assms g by (auto simp add: parse_step_def after_recovery_def Let_def)
  with g show ?thesis by simp
qed

subsection \<open>Rounds of the recovery loop and of the parse loop\<close>

lemma lex_parser_frame:
  "stack (lex_parser p ls) = stack p" "next_lookahead (lex_parser p ls) = next_lookahead p"
  "language (lex_parser p ls) = language p"
  "lexer (lex_parser p ls) = snd (lex_fn (language p) (lexer p) ls)"
  "lookahead (lex_parser p ls) = Some (next_tree p)"
  by (simp_all add: lex_parser_def alloc_tree_def split: prod.splits)

lemma fetch_lookahead_frame:
  "stack (fetch_lookahead p) = stack p" "next_lookahead (fetch_lookahead p) = next_lookahead p"
  "language (fetch_lookahead p) = language p"
  by (simp_all add: fetch_lookahead_def lex_parser_frame)











lemma fetch_lookahead_idem: "fetch_lookahead (fetch_lookahead p) = fetch_lookahead p"
  by (simp add: fetch_lookahead_def lex_parser_frame)

lemma next_action_fetch: "next_action (fetch_lookahead p) = next_action p"
  by (simp add: next_action_def fetch_lookahead_idem fetch_lookahead_frame
      cong: option.case_cong)

lemma parse_step_return:
  assumes "parse_step fuel p = Some (Inr (Return root p'))"
  shows "case root of
           None \<Rightarrow> next_action p' = Inr TSParseActionTypeOther
         | Some r \<Rightarrow> stack p' = [\<lparr>state = 0, node = r\<rparr>]"
proof (cases "next_action p")
  case (Inl f)
  with assms show ?thesis by (simp add: parse_step_def Let_def)
next
  case (Inr action)
  have rec: "\<exists>r. root = Some r \<and> stack p' = [\<lparr>state = 0, node = r\<rparr>]"
    if "after_recovery x = Some (Inr (Return root p'))" for x
  proof (cases x)
    case None
    with that show ?thesis by (simp add: after_recovery_def)
  next
    case (Some y)
    show ?thesis
    proof (cases y)
      case (Inl f)
      with Some that show ?thesis by (simp add: after_recovery_def)
    next
      case (Inr ok)
      obtain recovered pf where ok: "ok = (recovered, pf)" by (cases ok) auto
      obtain r pr where g: "get_root pf = Inr (Some r, pr)" "stack pr = [\<lparr>state = 0, node = r\<rparr>]"
        using get_root_returns[of pf] by blast
      with Some Inr ok that show ?thesis
        by (cases recovered) (simp_all add: after_recovery_def)
    qed
  qed
  have root: "(case get_root q of Inl f \<Rightarrow> Some (Inl f)
                | Inr (root, p') \<Rightarrow> Some (Inr (Return root p'))) = Some (Inr (Return root p')) \<Longrightarrow>
               \<exists>r. root = Some r \<and> stack p' = [\<lparr>state = 0, node = r\<rparr>]" for q
    using get_root_returns[of q] by auto
  have cont: "continue_with x \<noteq> Some (Inr (Return root p'))" for x
    by (simp add: continue_with_def split: sum.splits)
  show ?thesis
  proof (cases action)
    case (TSParseActionTypeShift s)
    show ?thesis
    proof (cases "lookahead_symbol (fetch_lookahead p) = Some ts_builtin_sym_error")
      case True
      with Inr TSParseActionTypeShift assms
      have "after_recovery (handle_error fuel (fetch_lookahead p))
              = Some (Inr (Return root p'))"
        by (simp add: parse_step_def Let_def)
      from rec[OF this] show ?thesis by auto
    next
      case False
      with Inr TSParseActionTypeShift assms cont show ?thesis
        by (simp add: parse_step_def Let_def)
    qed
  next
    case TSParseActionTypeShiftExtra
    with Inr assms cont show ?thesis by (simp add: parse_step_def Let_def)
  next
    case (TSParseActionTypeReduce symb n)
    with Inr assms cont show ?thesis by (simp add: parse_step_def Let_def)
  next
    case (TSParseActionTypeReduceExtra symb)
    with Inr assms cont show ?thesis by (simp add: parse_step_def Let_def)
  next
    case TSParseActionTypeAccept
    with Inr assms root[of "fetch_lookahead p"] show ?thesis
      by (auto simp add: parse_step_def Let_def)
  next
    case TSParseActionTypeError
    with Inr assms
    have "after_recovery (handle_error fuel (fetch_lookahead p))
            = Some (Inr (Return root p'))"
      by (simp add: parse_step_def Let_def)
    from rec[OF this] show ?thesis by auto
  next
    case TSParseActionTypeOther
    with Inr assms show ?thesis
      by (auto simp add: parse_step_def Let_def next_action_fetch)
  qed
qed

lemma parse_loop_return:
  "parse_loop fuel p = Some (Inr (root, p')) \<Longrightarrow>
     (case root of
        None \<Rightarrow> next_action p' = Inr TSParseActionTypeOther
      | Some r \<Rightarrow> stack p' = [\<lparr>state = 0, node = r\<rparr>])"
proof (induction fuel arbitrary: p)
  case 0
  then show ?case by simp
next
  case (Suc fuel)
  show ?case
  proof (cases "parse_step fuel p")
    case None
    with Suc.prems show ?thesis by simp
  next
    case (Some r)
    show ?thesis
    proof (cases r)
      case (Inl f)
      with Some Suc.prems show ?thesis by simp
    next
      case (Inr st)
      show ?thesis
      proof (cases st)
        case (Continue q)
        with Some Inr Suc.prems have "parse_loop fuel q = Some (Inr (root, p'))" by simp
        then show ?thesis by (rule Suc.IH)
      next
        case (Return root' q)
        with Some Inr Suc.prems have "root' = root" "q = p'" by simp_all
        with Some Inr Return show ?thesis
          using parse_step_return[of fuel p root p'] by simp
      qed
    qed
  qed
qed

text \<open>
  Whenever \<^verbatim>\<open>ts_parser_parse\<close> returns, the tree is null only if the action looked up at
  the head of the last round is of unknown type, and otherwise it is the node of the
  only entry of the stack, as \<^verbatim>\<open>get_root\<close> leaves it; a round that finds an action of
  unknown type at its head returns null; a round in which recovery fails returns a tree
  that is not null.
\<close>

lemma parse_return_value:
  "(ts_parser_parse fuel parser inp edit = Some (Inr (root, p')) \<longrightarrow>
      (case root of
         None \<Rightarrow> next_action p' = Inr TSParseActionTypeOther
       | Some r \<Rightarrow> stack p' = [\<lparr>state = 0, node = r\<rparr>] \<and> node (stack p' ! 0) = r))
   \<and> (next_action q = Inr TSParseActionTypeOther \<longrightarrow>
        parse_loop (Suc fuel) q = Some (Inr (None, fetch_lookahead q)))
   \<and> (next_action q = Inr TSParseActionTypeError
        \<and> handle_error fuel (fetch_lookahead q) = Some (Inr (False, qf)) \<longrightarrow>
        (\<exists>r pr. parse_loop (Suc fuel) q = Some (Inr (Some r, pr))))"
proof (intro conjI impI)
  assume a: "ts_parser_parse fuel parser inp edit = Some (Inr (root, p'))"
  then obtain p0 where "parse_loop fuel p0 = Some (Inr (root, p'))"
    by (auto simp add: ts_parser_parse_def split: option.splits)
  from parse_loop_return[OF this]
  show "case root of
         None \<Rightarrow> next_action p' = Inr TSParseActionTypeOther
       | Some r \<Rightarrow> stack p' = [\<lparr>state = 0, node = r\<rparr>] \<and> node (stack p' ! 0) = r"
    by (auto split: option.splits)
next
  assume "next_action q = Inr TSParseActionTypeOther"
  then show "parse_loop (Suc fuel) q = Some (Inr (None, fetch_lookahead q))"
    by (simp add: parse_step_def Let_def)
next
  assume "next_action q = Inr TSParseActionTypeError
        \<and> handle_error fuel (fetch_lookahead q) = Some (Inr (False, qf))"
  then show "\<exists>r pr. parse_loop (Suc fuel) q = Some (Inr (Some r, pr))"
    using failed_recovery_returns[of fuel q qf 0] by blast
qed

subsection \<open>Two tables on which the parse loop does not end\<close>



lemma error_loop_round:
  assumes "error_loops p"
  shows "parse_step fuel p = None
       \<or> (\<exists>p'. parse_step fuel p = Some (Inr (Continue p')) \<and> error_loops p')"
proof (cases fuel)
  case 0
  obtain a where a: "lookahead (fetch_lookahead p) = Some a"
    using assms by (auto simp add: error_loops_def lookahead_symbol_def)
  have "next_action p = Inr (TSParseActionTypeShift 2)"
    using assms
    by (auto simp add: error_loops_def next_action_def action_for_def ts_stack_top_state_def
        demo_language_def error_loop_table_def)
  with assms a 0 show ?thesis
    by (simp add: parse_step_def Let_def error_loops_def ts_builtin_sym_error_def
        handle_error_def after_recovery_def)
next
  case (Suc f)
  let ?q = "fetch_lookahead p"
  obtain a where a: "lookahead ?q = Some a" "symbol (trees ?q a) = 0"
    using assms by (auto simp add: error_loops_def lookahead_symbol_def)
  have lang: "language ?q = demo_language error_loop_table"
    and st: "stack ?q = stack p"
    using assms by (simp_all add: error_loops_def fetch_lookahead_frame)
  obtain below e where sp: "stack p = below @ [e]" "state e = 1 \<or> state e = 2"
    using assms by (cases "stack p" rule: rev_cases) (auto simp add: error_loops_def)
  have act: "next_action p = Inr (TSParseActionTypeShift 2)"
    using assms
    by (auto simp add: error_loops_def next_action_def action_for_def ts_stack_top_state_def
        demo_language_def error_loop_table_def)
  have scan: "find_recovery (language ?q) (lookahead_symbol ?q) (rev (stack ?q))
                = Inr (Some (length below, 2))"
    using a sp st lang
    by (auto simp add: lookahead_symbol_def action_for_def ts_builtin_sym_error_def
        demo_language_def error_loop_table_def)
  define p' where "p' = (case recover_at ?q a (length below) 2 of Inr x \<Rightarrow> x | Inl f \<Rightarrow> ?q)"
  have rec: "recover_at ?q a (length below) 2 = Inr p'"
    using a by (simp add: p'_def recover_at_def Let_def)
  have he: "handle_error (Suc f) ?q = Some (Inr (True, p'))"
    using a scan rec by (simp add: handle_error_def)
  have step: "parse_step fuel p = Some (Inr (Continue p'))"
    using act a he Suc
    by (simp add: parse_step_def Let_def lookahead_symbol_def ts_builtin_sym_error_def
        after_recovery_def)
  have p'props: "language p' = demo_language error_loop_table" "lookahead p' = Some a"
    "symbol (trees p' a) = 0" "stack p' = stack p @ [\<lparr>state = 2, node = a\<rparr>]"
    using rec a lang st sp
    by (auto simp add: recover_at_def Let_def resize_error_def ts_stack_shrink_def
        ts_stack_push_def)
  have "error_loops p'"
    using p'props by (simp add: error_loops_def fetch_lookahead_def lookahead_symbol_def)
  with step show ?thesis by blast
qed

lemma error_loop_runs: "error_loops p \<Longrightarrow> parse_loop fuel p = None"
proof (induction fuel arbitrary: p)
  case 0
  then show ?case by simp
next
  case (Suc fuel)
  from error_loop_round[OF Suc.prems, of fuel] show ?case
  proof
    assume "parse_step fuel p = None"
    then show ?thesis by simp
  next
    assume "\<exists>p'. parse_step fuel p = Some (Inr (Continue p')) \<and> error_loops p'"
    then obtain p' where "parse_step fuel p = Some (Inr (Continue p'))" "error_loops p'"
      by blast
    with Suc.IH[of p'] show ?thesis by simp
  qed
qed

section \<open>The claims\<close>

subsection \<open>C1: the effect of \<^verbatim>\<open>reduce\<close>\<close>

text \<open>
  C1, as the code has it. For every call of \<^verbatim>\<open>reduce\<close> with a nominal child count
  that is at most the size of the stack: the effective child count \<open>cc\<close> is the nominal
  count plus the number of extra nodes among the \<open>k\<close> entries the walk has passed from
  the top down; the walk stops after \<open>k\<close> entries because it has passed \<open>cc\<close> entries
  or because \<open>cc\<close> has reached the size of the stack, and not before; the top \<open>cc\<close>
  entries leave the stack and their nodes are the children of the new node, in their
  order from the bottom to the top; the new node has the given symbol and the hidden
  flag of that symbol; the previous lookahead is stored in \<^verbatim>\<open>next_lookahead\<close>, whatever
  that slot held; the new node is the lookahead, and the action of the next round is
  looked up for its symbol.
\<close>

theorem reduce_effect:
  assumes "child_count \<le> length (stack parser)" and "length (stack parser) \<le> SIZE_MAX"
  shows "\<exists>cc k p'.
      cc = child_count + extras_among_top (trees parser) (stack parser) k
    \<and> k \<le> cc \<and> cc \<le> length (stack parser)
    \<and> (k = cc \<or> cc = length (stack parser))
    \<and> (\<forall>j<k. j < child_count + extras_among_top (trees parser) (stack parser) j
             \<and> child_count + extras_among_top (trees parser) (stack parser) j
                 \<noteq> length (stack parser))
    \<and> reduce parser symb child_count = Inr p'
    \<and> stack p' = take (length (stack parser) - cc) (stack parser)
    \<and> children (trees p' (next_tree parser)) =
         map node (drop (length (stack parser) - cc) (stack parser))
    \<and> symbol (trees p' (next_tree parser)) = symb
    \<and> hidden (options (trees p' (next_tree parser))) = hidden_symbol_flags (language parser) symb
    \<and> next_lookahead p' = lookahead parser
    \<and> lookahead p' = Some (next_tree parser)
    \<and> next_action p' = Inr (action_for (language parser) (ts_stack_top_state (stack p')) symb)"
proof -
  let ?ex = "extras_among_top (trees parser) (stack parser)"
  have "child_count = child_count + ?ex 0"
    by (simp add: extras_among_top_def)
  from reduce_walk_counts[OF _ assms(1) assms(2) this]
  obtain k where k: "reduce_walk (trees parser) (stack parser) 0 child_count = Inr (child_count + ?ex k)"
    "k \<le> child_count + ?ex k" "child_count + ?ex k \<le> length (stack parser)"
    "k = child_count + ?ex k \<or> child_count + ?ex k = length (stack parser)"
    "\<forall>j. 0 \<le> j \<and> j < k \<longrightarrow> j < child_count + ?ex j \<and> child_count + ?ex j \<noteq> length (stack parser)"
    by auto
  note r = reduce_result[OF k(1) k(3), of symb]
  show ?thesis
    apply (rule exI[of _ "child_count + ?ex k"])
    apply (rule exI[of _ k])
    apply (subst r)
    using k(2-5)
    apply (simp add: next_action_def fetch_lookahead_def lookahead_symbol_def)
    done
qed

text \<open>
  Witness for C1: on a stack of two entries whose top node is extra, a reduction of
  nominal count 1 takes both entries.
\<close>

theorem reduce_effect_witness:
  "(1::nat) \<le> length (stack (demo_parser [\<lparr>state = 1, node = 0\<rparr>, \<lparr>state = 1, node = 1\<rparr>]))
   \<and> length (stack (demo_parser [\<lparr>state = 1, node = 0\<rparr>, \<lparr>state = 1, node = 1\<rparr>])) \<le> SIZE_MAX
   \<and> (\<exists>p'. reduce (demo_parser [\<lparr>state = 1, node = 0\<rparr>, \<lparr>state = 1, node = 1\<rparr>]) 3 1 = Inr p'
         \<and> symbol (trees p' 3) = 3 \<and> hidden (options (trees p' 3))
         \<and> next_lookahead p' = None \<and> lookahead p' = Some 3)"
  using reduce_effect[of 1 "demo_parser [\<lparr>state = 1, node = 0\<rparr>, \<lparr>state = 1, node = 1\<rparr>]" 3]
  by (auto simp add: demo_defs SIZE_MAX_def)

text \<open>
  Counterexample for C1 as stated (the slot \<^verbatim>\<open>next_lookahead\<close> is empty at every call
  of \<^verbatim>\<open>reduce\<close>): with a table that reduces on every symbol, the first round of the
  parse loop reduces and leaves the token (node 0) in \<^verbatim>\<open>next_lookahead\<close>; the next
  round reduces again, while the slot is taken, and the token is overwritten.
\<close>

theorem reduce_next_lookahead_counterexample:
  "parse_begin 0 (ts_parser_make (demo_language reduce_table)) ''a'' None
     = Some (loop_entry (demo_language reduce_table) ''a'')
   \<and> (case parse_step 0 (loop_entry (demo_language reduce_table) ''a'') of
         Some (Inr (Continue p)) \<Rightarrow>
           next_lookahead p = Some 0
           \<and> next_action p = Inr (TSParseActionTypeReduce 1 0)
           \<and> (case reduce p 1 0 of Inr q \<Rightarrow> next_lookahead q = Some 1 | Inl f \<Rightarrow> False)
       | _ \<Rightarrow> False)"
  by (simp add: run_defs demo_defs)

subsection \<open>C2: the state of a child put back by \<^verbatim>\<open>breakdown_stack\<close>\<close>

text \<open>
  C2, as the code has it. In a round of \<^verbatim>\<open>breakdown_stack\<close> that pops the node \<open>n\<close>, the
  children put back are the first children of \<open>n\<close>, in order, and each is pushed under
  the state the table shifts to, for the child's symbol, from the state on top of the
  stack at that moment, when that action is a shift; otherwise it is pushed under that
  top state itself: the state of the entry below the popped parent for the first
  child (state 0 on the empty stack), and the state of the child put back before it
  for the others.
\<close>

theorem breakdown_puts_back_under_top_state:
  assumes "breakdown_pop lang edit_position mem n st pos = (st', pos')"
  shows "\<exists>new. st' = butlast st @ new
     \<and> map node new = take (length new) (children (mem n))
     \<and> (\<forall>j < length new.
           state (new ! j) =
             (case action_for lang (ts_stack_top_state (butlast st @ take j new))
                     (symbol (mem (children (mem n) ! j))) of
                TSParseActionTypeShift s \<Rightarrow> s
              | _ \<Rightarrow> ts_stack_top_state (butlast st @ take j new)))
     \<and> (ts_stack_top_node st = Some n
          \<and> \<not> (unat (chars pos) < edit_position \<and> children (mem n) = []) \<longrightarrow>
         breakdown_loop (Suc fuel) lang edit_position mem st pos =
           breakdown_loop fuel lang edit_position mem st' pos')"
proof -
  from put_back_entries[OF assms[unfolded breakdown_pop_def]]
  obtain new where new: "st' = butlast st @ new"
    "map node new = take (length new) (children (mem n))"
    "\<forall>j < length new.
           state (new ! j) =
             next_state lang (ts_stack_top_state (butlast st @ take j new))
               (symbol (mem (children (mem n) ! j)))"
    by blast
  have loop: "ts_stack_top_node st = Some n
          \<and> \<not> (unat (chars pos) < edit_position \<and> children (mem n) = []) \<longrightarrow>
         breakdown_loop (Suc fuel) lang edit_position mem st pos =
           breakdown_loop fuel lang edit_position mem st' pos'"
    using assms by auto
  show ?thesis
    apply (rule exI[of _ new])
    using new loop unfolding next_state_def
    apply blast
    done
qed

text \<open>
  Witness for C2: the node 2 is popped from a stack that holds it alone; its child 0
  is put back under state 0, its child 1 under state 1, to which state 0 shifts on \<open>a\<close>.
\<close>

theorem breakdown_puts_back_under_top_state_witness:
  "breakdown_pop (demo_language recover_table) 2 demo_store 2 [\<lparr>state = 5, node = 2\<rparr>]
       \<lparr>chars = 2, extended = 2\<rparr>
     = ([\<lparr>state = 0, node = 0\<rparr>, \<lparr>state = 1, node = 1\<rparr>], \<lparr>chars = 2, extended = 2\<rparr>)
   \<and> action_for (demo_language recover_table) 0 (symbol (demo_store 1)) = TSParseActionTypeShift 1
   \<and> breakdown_loop (Suc 2) (demo_language recover_table) 2 demo_store [\<lparr>state = 5, node = 2\<rparr>]
         \<lparr>chars = 2, extended = 2\<rparr>
      = breakdown_loop 2 (demo_language recover_table) 2 demo_store
          [\<lparr>state = 0, node = 0\<rparr>, \<lparr>state = 1, node = 1\<rparr>] \<lparr>chars = 2, extended = 2\<rparr>"
proof -
  have bp: "breakdown_pop (demo_language recover_table) 2 demo_store 2 [\<lparr>state = 5, node = 2\<rparr>]
       \<lparr>chars = 2, extended = 2\<rparr>
     = ([\<lparr>state = 0, node = 0\<rparr>, \<lparr>state = 1, node = 1\<rparr>], \<lparr>chars = 2, extended = 2\<rparr>)"
    by (simp add: breakdown_defs demo_defs)
  have act: "action_for (demo_language recover_table) 0 (symbol (demo_store 1)) = TSParseActionTypeShift 1"
    by (simp add: breakdown_defs demo_defs)
  have top: "ts_stack_top_node [\<lparr>state = 5, node = 2\<rparr>] = Some 2"
    "children (demo_store 2) \<noteq> []"
    by (simp_all add: breakdown_defs demo_defs)
  from breakdown_puts_back_under_top_state[OF bp, of 2] top
  have "breakdown_loop (Suc 2) (demo_language recover_table) 2 demo_store [\<lparr>state = 5, node = 2\<rparr>]
         \<lparr>chars = 2, extended = 2\<rparr>
      = breakdown_loop 2 (demo_language recover_table) 2 demo_store
          [\<lparr>state = 0, node = 0\<rparr>, \<lparr>state = 1, node = 1\<rparr>] \<lparr>chars = 2, extended = 2\<rparr>"
    by (simp del: breakdown_loop.simps)
  with bp act show ?thesis by simp
qed

text \<open>
  Counterexample for C2 as stated (a child whose action is not a shift is pushed under
  the state of the parent that is popped). The input \<open>aa\<close> is parsed with the table
  above: the document, node 4, has the child 3, whose children are the tokens 0 and 1.
  In a reparse with an edit at position 3, \<^verbatim>\<open>breakdown_stack\<close> pops the document and puts
  node 3 back under state 2; it pops node 3 and puts its children back: the action of
  state 1 on the symbol of child 1 is a shift-extra, not a shift, and child 1 is pushed
  under state 1, the state on top of the stack, while its parent was popped from
  state 2.
\<close>

theorem breakdown_parent_state_counterexample:
  "case ts_parser_parse (Suc (Suc (Suc (Suc (Suc 0))))) (ts_parser_make (demo_language extra_table))
          ''aa'' None of
     Some (Inr (Some root, p)) \<Rightarrow>
       stack p = [\<lparr>state = 0, node = 4\<rparr>]
       \<and> children (trees p 4) = [3] \<and> children (trees p 3) = [0, 1]
       \<and> breakdown_pop (language p) 3 (trees p) 4 (stack p) \<lparr>chars = 2, extended = 2\<rparr>
           = ([\<lparr>state = 2, node = 3\<rparr>], \<lparr>chars = 2, extended = 2\<rparr>)
       \<and> action_for (language p) 1 (symbol (trees p 1)) = TSParseActionTypeShiftExtra
       \<and> breakdown_pop (language p) 3 (trees p) 3 [\<lparr>state = 2, node = 3\<rparr>]
             \<lparr>chars = 2, extended = 2\<rparr>
           = ([\<lparr>state = 1, node = 0\<rparr>, \<lparr>state = 1, node = 1\<rparr>], \<lparr>chars = 2, extended = 2\<rparr>)
       \<and> map_option (\<lambda>(pos, q). stack q)
             (breakdown_stack (Suc (Suc (Suc 0))) p
                (Some \<lparr>position = 3, chars_inserted = 0, chars_removed = 0\<rparr>))
           = Some [\<lparr>state = 1, node = 0\<rparr>, \<lparr>state = 1, node = 1\<rparr>]
   | _ \<Rightarrow> False"
  by (simp add: parse_defs run_defs breakdown_defs demo_defs extra_table_def SIZE_MAX_def)

subsection \<open>C3: progress of the parse loop\<close>




subsection \<open>C4: recovery entered on an ordinary token\<close>

text \<open>
  C4 fails on the code. The input is \<open>a;\<close> with the recovery table: in state 1 the
  table answers the semicolon with an error; \<^verbatim>\<open>handle_error\<close> takes the lookahead, the
  semicolon itself, as its error node, finds state 1 at once, sets the node's size to
  zero and pushes it; the same node is still the lookahead and is shifted next. The
  document returned has the children 0, 1, 1 of symbols \<open>a\<close>, semicolon, semicolon: no
  node has the error symbol, and the total size of the document is 1 while the lexer
  has read the 2 characters of the input.
\<close>

theorem recovery_on_token_drops_input:
  "case ts_parser_parse (Suc (Suc (Suc (Suc 0)))) (ts_parser_make (demo_language recover_table)) ''a;'' None of
     Some (Inr (Some root, p)) \<Rightarrow>
       children (trees p root) = [0, 1, 1]
       \<and> map (\<lambda>c. symbol (trees p c)) (children (trees p root)) = [1, 2, 2]
       \<and> sizeT (trees p 1) = ts_length_zero
       \<and> ts_tree_total_size (trees p root) = \<lparr>chars = 1, extended = 1\<rparr>
       \<and> current_position (lexer p) = \<lparr>chars = 2, extended = 2\<rparr>
   | _ \<Rightarrow> False"
  by (simp add: parse_defs run_defs demo_defs recover_table_def)

subsection \<open>C5: recovery at a state of the stack\<close>

text \<open>
  C5. In a round of the recovery loop with lookahead \<open>la\<close>: when entry \<open>idx\<close> is the
  entry nearest the top whose state shifts the error symbol into a state
  \<open>state_after_error\<close> that does not answer the lookahead's symbol with an error, the
  stack is cut to the entries up to \<open>idx\<close>, the padding of the lookahead is set to
  zero, the size of the error node becomes the token start position less the right
  position of the cut stack less the error node's own padding, the error node is pushed
  under \<open>state_after_error\<close>, and recovery answers success.
\<close>

theorem recovery_found:
  assumes "lookahead parser = Some la"
    and "idx < length (stack parser)"
    and "recovery_state (language parser) (symbol (trees parser la)) (stack parser ! idx)
           = Some state_after_error"
    and "\<forall>j. idx < j \<and> j < length (stack parser) \<longrightarrow>
           recovery_state (language parser) (symbol (trees parser la)) (stack parser ! j) = None"
  shows "\<exists>p' mem.
      handle_error_loop (Suc fuel) error parser = Some (Inr (True, p'))
    \<and> stack p' = take (idx + 1) (stack parser) @ [\<lparr>state = state_after_error, node = error\<rparr>]
    \<and> mem = (trees parser)(la := (trees parser la)\<lparr>padding := ts_length_zero\<rparr>)
    \<and> trees p' = mem(error := (mem error)
         \<lparr>sizeT := ts_length_sub
            (ts_length_sub (token_start_position (lexer parser))
               (ts_stack_right_position mem (take (idx + 1) (stack parser))))
            (padding (mem error))\<rparr>)
    \<and> padding (trees p' la) = ts_length_zero
    \<and> lookahead p' = Some la
    \<and> lexer p' = lexer parser"
proof -
  have "find_recovery (language parser) (lookahead_symbol parser) (rev (stack parser))
          = Inr (Some (idx, state_after_error))"
    using find_recovery_found[OF assms(2) assms(3) assms(4)] assms(1)
    by (simp add: lookahead_symbol_def)
  then show ?thesis
    using assms(1)
    by (simp add: recover_at_def resize_error_def ts_stack_shrink_def ts_stack_push_def Let_def)
qed

text \<open>
  Witness for C5: on the stack of states 1 and 0 with a semicolon as lookahead, the
  entry of state 1 is the recovery entry; the stack is cut above it and the error node
  is pushed under state 2.
\<close>

theorem recovery_found_witness:
  "lookahead ((demo_parser [\<lparr>state = 1, node = 2\<rparr>, \<lparr>state = 0, node = 1\<rparr>])\<lparr>lookahead := Some 0\<rparr>) = Some 0
   \<and> recovery_state (demo_language recover_table) 2 \<lparr>state = 1, node = 2\<rparr> = Some 2
   \<and> recovery_state (demo_language recover_table) 2 \<lparr>state = 0, node = 1\<rparr> = None
   \<and> (\<exists>p'. handle_error_loop 1 0
               ((demo_parser [\<lparr>state = 1, node = 2\<rparr>, \<lparr>state = 0, node = 1\<rparr>])\<lparr>lookahead := Some 0\<rparr>)
             = Some (Inr (True, p'))
          \<and> stack p' = [\<lparr>state = 1, node = 2\<rparr>, \<lparr>state = 2, node = 0\<rparr>]
          \<and> padding (trees p' 0) = ts_length_zero)"
proof -
  let ?P = "(demo_parser [\<lparr>state = 1, node = 2\<rparr>, \<lparr>state = 0, node = 1\<rparr>])\<lparr>lookahead := Some 0\<rparr>"
  have h1: "lookahead ?P = Some 0"
    by (simp add: demo_defs)
  have h2: "0 < length (stack ?P)"
    by (simp add: demo_defs)
  have r1: "recovery_state (demo_language recover_table) 2 \<lparr>state = 1, node = 2\<rparr> = Some 2"
    by (simp add: demo_defs recovery_state_def action_for_def ts_builtin_sym_error_def)
  have r2: "recovery_state (demo_language recover_table) 2 \<lparr>state = 0, node = 1\<rparr> = None"
    by (simp add: demo_defs recovery_state_def action_for_def ts_builtin_sym_error_def)
  have h3: "recovery_state (language ?P) (symbol (trees ?P 0)) (stack ?P ! 0) = Some 2"
    using r1 by (simp add: demo_defs)
  have h4: "\<forall>j. 0 < j \<and> j < length (stack ?P) \<longrightarrow>
              recovery_state (language ?P) (symbol (trees ?P 0)) (stack ?P ! j) = None"
    using r2 by (auto simp add: demo_defs less_Suc_eq)
  from recovery_found[OF h1 h2 h3 h4, of 0 0] h1 r1 r2 show ?thesis
    by (auto simp add: demo_parser_def)
qed

subsection \<open>C6: recovery that fails at the end of the input\<close>

text \<open>
  C6. In a round of the recovery loop in which no entry of the stack is a recovery entry
  and lexing again in the error lex state leaves the cursor where it was, the lexer is
  advanced: \<open>lx\<close>, the lexer after the advance, has its cursor one character further when
  a character stood at the cursor. If the cursor of \<open>lx\<close> is then at the end of the
  input, the size of the error node is set, the node is pushed under state 0 and
  recovery answers failure; the round of the parse loop that started this recovery (on
  an error action, or on a shift of the error symbol) then returns from
  \<^verbatim>\<open>ts_parser_parse\<close> the root that \<^verbatim>\<open>get_root\<close> builds: a document node whose children
  are the nodes of the stack and the error node. If characters remain after the
  advance, the recovery loop goes on with \<open>lx\<close>.
\<close>

theorem recovery_fails_at_end_of_input:
  assumes "lookahead_symbol parser = Some s"
    and "\<forall>e \<in> set (stack parser). recovery_state (language parser) s e = None"
    and "p1 = lex_parser parser (lex_error_state (language parser))"
    and "ts_length_eq (current_position (lexer p1)) (current_position (lexer parser))"
    and "lx = snd (ts_lexer_advance (lexer p1))"
  shows "(unat (chars (current_position (lexer p1))) < length (input (lexer p1)) \<longrightarrow>
            lx = (lexer p1)\<lparr>current_position :=
                    ts_length_add (current_position (lexer p1)) \<lparr>chars = 1, extended = 1\<rparr>\<rparr>)
       \<and> (length (input (lexer p1)) \<le> unat (chars (current_position (lexer p1))) \<longrightarrow>
            lx = lexer p1)
       \<and> (unat (chars (current_position lx)) < length (input lx) \<longrightarrow>
            handle_error_loop (Suc fuel) error parser =
              handle_error_loop fuel error (p1\<lparr>lexer := lx\<rparr>))
       \<and> (length (input lx) \<le> unat (chars (current_position lx)) \<longrightarrow>
            (\<exists>pf root pr.
                handle_error_loop (Suc fuel) error parser = Some (Inr (False, pf))
              \<and> lexer pf = lx
              \<and> stack pf = stack parser @ [\<lparr>state = 0, node = error\<rparr>]
              \<and> trees pf = (trees p1)(error := (trees p1 error)
                    \<lparr>sizeT := ts_length_sub
                       (ts_length_sub (token_start_position (lexer p1))
                          (ts_stack_right_position (trees p1) (stack parser)))
                       (padding (trees p1 error))\<rparr>)
              \<and> get_root pf = Inr (Some root, pr)
              \<and> stack pr = [\<lparr>state = 0, node = root\<rparr>]
              \<and> symbol (trees pr root) = ts_builtin_sym_document (language parser)
              \<and> children (trees pr root) = map node (stack parser) @ [error]
              \<and> (\<forall>q fuel1 t.
                    (next_action q = Inr TSParseActionTypeError
                     \<or> (next_action q = Inr (TSParseActionTypeShift t)
                         \<and> lookahead_symbol (fetch_lookahead q) = Some ts_builtin_sym_error))
                    \<and> lookahead (fetch_lookahead q) = Some error
                    \<and> handle_error_loop fuel1 error (fetch_lookahead q) =
                         handle_error_loop (Suc fuel) error parser \<longrightarrow>
                    parse_step fuel1 q = Some (Inr (Return (Some root) pr))
                    \<and> parse_loop (Suc fuel1) q = Some (Inr (Some root, pr)))))"
proof (intro conjI impI)
  note adv = ts_lexer_advance_cases[of "lexer p1"]
  have scan: "find_recovery (language parser) (lookahead_symbol parser) (rev (stack parser)) = Inr None"
    using find_recovery_none[OF assms(2)] assms(1) by simp
  have st: "stack p1 = stack parser" and lang: "language p1 = language parser"
    using assms(3) by (simp_all add: lex_parser_frame)
  obtain advanced where pair: "ts_lexer_advance (lexer p1) = (advanced, lx)"
    using assms(5) by (cases "ts_lexer_advance (lexer p1)") auto
  have advanced: "advanced \<longleftrightarrow> unat (chars (current_position lx)) < length (input lx)"
    using adv pair by simp
  have unfold: "handle_error_loop (Suc fuel) error parser =
      (if \<not> advanced then Some (Inr (False, fail_to_recover (p1\<lparr>lexer := lx\<rparr>) error))
       else handle_error_loop fuel error (p1\<lparr>lexer := lx\<rparr>))"
    using scan assms(3,4) pair by (simp add: Let_def)
  {
    assume "unat (chars (current_position (lexer p1))) < length (input (lexer p1))"
    then show "lx = (lexer p1)\<lparr>current_position :=
                    ts_length_add (current_position (lexer p1)) \<lparr>chars = 1, extended = 1\<rparr>\<rparr>"
      using adv assms(5) by simp
  }
  {
    assume "length (input (lexer p1)) \<le> unat (chars (current_position (lexer p1)))"
    then show "lx = lexer p1"
      using adv assms(5) by simp
  }
  {
    assume "unat (chars (current_position lx)) < length (input lx)"
    then show "handle_error_loop (Suc fuel) error parser =
              handle_error_loop fuel error (p1\<lparr>lexer := lx\<rparr>)"
      using unfold advanced by simp
  }
  {
    assume "length (input lx) \<le> unat (chars (current_position lx))"
    then have fail: "handle_error_loop (Suc fuel) error parser =
            Some (Inr (False, fail_to_recover (p1\<lparr>lexer := lx\<rparr>) error))"
      using unfold advanced by simp
    define pf where "pf = fail_to_recover (p1\<lparr>lexer := lx\<rparr>) error"
    have tsp: "token_start_position lx = token_start_position (lexer p1)"
      using assms(5) by (simp add: ts_lexer_advance_def Let_def)
    have pf: "lexer pf = lx" "stack pf = stack parser @ [\<lparr>state = 0, node = error\<rparr>]"
      "trees pf = (trees p1)(error := (trees p1 error)
                    \<lparr>sizeT := ts_length_sub
                       (ts_length_sub (token_start_position (lexer p1))
                          (ts_stack_right_position (trees p1) (stack parser)))
                       (padding (trees p1 error))\<rparr>)"
      "language pf = language parser"
      using st lang tsp
      by (simp_all add: pf_def fail_to_recover_def resize_error_def ts_stack_push_def Let_def)
    have ne: "stack pf \<noteq> []"
      using pf(2) by simp
    from get_root_result[of pf] ne
    obtain pr where pr: "get_root pf = Inr (Some (next_tree pf), pr)"
      "stack pr = [\<lparr>state = 0, node = next_tree pf\<rparr>]"
      "symbol (trees pr (next_tree pf)) = ts_builtin_sym_document (language pf)"
      "children (trees pr (next_tree pf)) = map node (stack pf)"
      by blast
    have drv: "parse_step fuel1 q = Some (Inr (Return (Some (next_tree pf)) pr))
                    \<and> parse_loop (Suc fuel1) q = Some (Inr (Some (next_tree pf), pr))"
      if "(next_action q = Inr TSParseActionTypeError
                     \<or> (next_action q = Inr (TSParseActionTypeShift t)
                         \<and> lookahead_symbol (fetch_lookahead q) = Some ts_builtin_sym_error))
                    \<and> lookahead (fetch_lookahead q) = Some error
                    \<and> handle_error_loop fuel1 error (fetch_lookahead q) =
                         handle_error_loop (Suc fuel) error parser" for q fuel1 t
    proof -
      have "handle_error fuel1 (fetch_lookahead q) = Some (Inr (False, pf))"
        using that fail by (simp add: handle_error_def pf_def)
      from failed_recovery_returns[OF this, of t] that pr(1) show ?thesis
        by auto
    qed
    have fail': "handle_error_loop (Suc fuel) error parser = Some (Inr (False, pf))"
      using fail by (simp only: pf_def)
    have pr': "get_root pf = Inr (Some (next_tree pf), pr)"
      "stack pr = [\<lparr>state = 0, node = next_tree pf\<rparr>]"
      "symbol (trees pr (next_tree pf)) = ts_builtin_sym_document (language parser)"
      "children (trees pr (next_tree pf)) = map node (stack parser) @ [error]"
      using pr pf(2,4) by simp_all
    have drv_all: "\<forall>q fuel1 t.
                    (next_action q = Inr TSParseActionTypeError
                     \<or> (next_action q = Inr (TSParseActionTypeShift t)
                         \<and> lookahead_symbol (fetch_lookahead q) = Some ts_builtin_sym_error))
                    \<and> lookahead (fetch_lookahead q) = Some error
                    \<and> handle_error_loop fuel1 error (fetch_lookahead q) =
                         handle_error_loop (Suc fuel) error parser \<longrightarrow>
                    parse_step fuel1 q = Some (Inr (Return (Some (next_tree pf)) pr))
                    \<and> parse_loop (Suc fuel1) q = Some (Inr (Some (next_tree pf), pr))"
      using drv by blast
    show "\<exists>pf root pr.
                handle_error_loop (Suc fuel) error parser = Some (Inr (False, pf))
              \<and> lexer pf = lx
              \<and> stack pf = stack parser @ [\<lparr>state = 0, node = error\<rparr>]
              \<and> trees pf = (trees p1)(error := (trees p1 error)
                    \<lparr>sizeT := ts_length_sub
                       (ts_length_sub (token_start_position (lexer p1))
                          (ts_stack_right_position (trees p1) (stack parser)))
                       (padding (trees p1 error))\<rparr>)
              \<and> get_root pf = Inr (Some root, pr)
              \<and> stack pr = [\<lparr>state = 0, node = root\<rparr>]
              \<and> symbol (trees pr root) = ts_builtin_sym_document (language parser)
              \<and> children (trees pr root) = map node (stack parser) @ [error]
              \<and> (\<forall>q fuel1 t.
                    (next_action q = Inr TSParseActionTypeError
                     \<or> (next_action q = Inr (TSParseActionTypeShift t)
                         \<and> lookahead_symbol (fetch_lookahead q) = Some ts_builtin_sym_error))
                    \<and> lookahead (fetch_lookahead q) = Some error
                    \<and> handle_error_loop fuel1 error (fetch_lookahead q) =
                         handle_error_loop (Suc fuel) error parser \<longrightarrow>
                    parse_step fuel1 q = Some (Inr (Return (Some root) pr))
                    \<and> parse_loop (Suc fuel1) q = Some (Inr (Some root, pr)))"
      using fail' pf(1,2,3) pr' drv_all by blast
  }
qed

text \<open>
  Witness for C6: the parse of \<open>a@\<close> with the lexer that stops at \<open>@\<close>. After the round
  that shifts \<open>a\<close>, the lookahead is an error token and no entry is a recovery entry;
  lexing again leaves the cursor at 1, the advance moves it to 2, the end of the input,
  and the parse returns a document with the children \<open>a\<close> and the error node. On the
  input \<open>a@@\<close> the first advance leaves a character, the recovery loop goes on, and its
  second round fails in the same way.
\<close>

theorem recovery_fails_at_end_of_input_witness:
  "parse_step (Suc (Suc 0)) (loop_entry (strict_language recover_table) ''a@'')
     = Some (Inr (Continue (shifted_a ''a@'')))
   \<and> next_action (shifted_a ''a@'') = Inr (TSParseActionTypeShift 2)
   \<and> lookahead_symbol (fetch_lookahead (shifted_a ''a@'')) = Some ts_builtin_sym_error
   \<and> lookahead (fetch_lookahead (shifted_a ''a@'')) = Some 1
   \<and> stack (fetch_lookahead (shifted_a ''a@'')) = [\<lparr>state = 1, node = 0\<rparr>]
   \<and> recovery_state (strict_language recover_table) ts_builtin_sym_error \<lparr>state = 1, node = 0\<rparr> = None
   \<and> current_position (lexer (fetch_lookahead (shifted_a ''a@''))) = \<lparr>chars = 1, extended = 1\<rparr>
   \<and> current_position (lexer (lex_parser (fetch_lookahead (shifted_a ''a@'')) 1))
        = \<lparr>chars = 1, extended = 1\<rparr>
   \<and> current_position (snd (ts_lexer_advance (lexer (lex_parser (fetch_lookahead (shifted_a ''a@'')) 1))))
        = \<lparr>chars = 2, extended = 2\<rparr>
   \<and> (\<exists>pf root pr.
          handle_error_loop (Suc 0) 1 (fetch_lookahead (shifted_a ''a@'')) = Some (Inr (False, pf))
        \<and> stack pf = [\<lparr>state = 1, node = 0\<rparr>, \<lparr>state = 0, node = 1\<rparr>]
        \<and> children (trees pr root) = [0, 1]
        \<and> parse_step (Suc 0) (shifted_a ''a@'') = Some (Inr (Return (Some root) pr))
        \<and> parse_loop (Suc (Suc (Suc 0))) (loop_entry (strict_language recover_table) ''a@'')
            = Some (Inr (Some root, pr)))
   \<and> current_position (snd (ts_lexer_advance (lexer (lex_parser (fetch_lookahead (shifted_a ''a@@'')) 1))))
        = \<lparr>chars = 2, extended = 2\<rparr>
   \<and> handle_error_loop (Suc (Suc 0)) 1 (fetch_lookahead (shifted_a ''a@@'')) =
       handle_error_loop (Suc 0) 1
         ((lex_parser (fetch_lookahead (shifted_a ''a@@'')) 1)
            \<lparr>lexer := snd (ts_lexer_advance (lexer (lex_parser (fetch_lookahead (shifted_a ''a@@'')) 1)))\<rparr>)
   \<and> (\<exists>root pr.
          parse_loop (Suc (Suc (Suc (Suc 0)))) (loop_entry (strict_language recover_table) ''a@@'')
            = Some (Inr (Some root, pr))
        \<and> children (trees pr root) = [0, 1])"
proof -
  let ?E = "loop_entry (strict_language recover_table) ''a@''"
  let ?P = "fetch_lookahead (shifted_a ''a@'')"
  let ?Q = "fetch_lookahead (shifted_a ''a@@'')"
  note defs = run_defs demo_defs strict_defs recovery_defs
  have reach: "parse_step (Suc (Suc 0)) ?E = Some (Inr (Continue (shifted_a ''a@'')))"
    by (rule shifted_a_reached)
  have act: "next_action (shifted_a ''a@'') = Inr (TSParseActionTypeShift 2)"
    by (simp add: defs)
  have sym: "lookahead_symbol ?P = Some ts_builtin_sym_error"
    "lookahead_symbol ?Q = Some ts_builtin_sym_error"
    by (simp_all add: defs)
  have la: "lookahead ?P = Some 1"
    by (simp add: defs)
  have st: "stack ?P = [\<lparr>state = 1, node = 0\<rparr>]" "stack ?Q = [\<lparr>state = 1, node = 0\<rparr>]"
    by (simp_all add: defs)
  have lang: "language ?P = strict_language recover_table"
    "language ?Q = strict_language recover_table"
    by (simp_all add: defs)
  have les: "lex_error_state (strict_language recover_table) = 1"
    by (simp add: defs)
  have rs: "recovery_state (strict_language recover_table) ts_builtin_sym_error \<lparr>state = 1, node = 0\<rparr> = None"
    by (simp add: defs)
  have none: "\<forall>e \<in> set (stack ?P). recovery_state (language ?P) ts_builtin_sym_error e = None"
    "\<forall>e \<in> set (stack ?Q). recovery_state (language ?Q) ts_builtin_sym_error e = None"
    unfolding st lang using rs by simp_all
  have pos: "current_position (lexer ?P) = \<lparr>chars = 1, extended = 1\<rparr>"
    "current_position (lexer (lex_parser ?P 1)) = \<lparr>chars = 1, extended = 1\<rparr>"
    "current_position (lexer ?Q) = \<lparr>chars = 1, extended = 1\<rparr>"
    "current_position (lexer (lex_parser ?Q 1)) = \<lparr>chars = 1, extended = 1\<rparr>"
    by (simp_all add: defs)
  have same: "ts_length_eq (current_position (lexer (lex_parser ?P (lex_error_state (language ?P)))))
                (current_position (lexer ?P))"
    "ts_length_eq (current_position (lexer (lex_parser ?Q (lex_error_state (language ?Q)))))
                (current_position (lexer ?Q))"
    unfolding lang les pos by (simp_all add: ts_length_eq_def)
  have adv: "current_position (snd (ts_lexer_advance (lexer (lex_parser ?P 1))))
               = \<lparr>chars = 2, extended = 2\<rparr>"
    "input (snd (ts_lexer_advance (lexer (lex_parser ?P 1)))) = ''a@''"
    "current_position (snd (ts_lexer_advance (lexer (lex_parser ?Q 1))))
               = \<lparr>chars = 2, extended = 2\<rparr>"
    "input (snd (ts_lexer_advance (lexer (lex_parser ?Q 1)))) = ''a@@''"
    by (simp_all add: defs Let_def)
  note t1 = recovery_fails_at_end_of_input[OF sym(1) none(1) refl same(1) refl, of 0 1,
      unfolded lang les]
  note t2 = recovery_fails_at_end_of_input[OF sym(2) none(2) refl same(2) refl, of "Suc 0" 1,
      unfolded lang les]
  have at_end: "length (input (snd (ts_lexer_advance (lexer (lex_parser ?P 1)))))
      \<le> unat (chars (current_position (snd (ts_lexer_advance (lexer (lex_parser ?P 1))))))"
    unfolding adv by simp
  have inside: "unat (chars (current_position (snd (ts_lexer_advance (lexer (lex_parser ?Q 1))))))
      < length (input (snd (ts_lexer_advance (lexer (lex_parser ?Q 1)))))"
    unfolding adv by simp
  from t1 at_end obtain pf root pr where
    pf: "handle_error_loop (Suc 0) 1 ?P = Some (Inr (False, pf))"
      "stack pf = stack ?P @ [\<lparr>state = 0, node = 1\<rparr>]"
      "children (trees pr root) = map node (stack ?P) @ [1]"
    and drv: "\<forall>q fuel1 t.
        (next_action q = Inr TSParseActionTypeError
         \<or> (next_action q = Inr (TSParseActionTypeShift t)
             \<and> lookahead_symbol (fetch_lookahead q) = Some ts_builtin_sym_error))
        \<and> lookahead (fetch_lookahead q) = Some 1
        \<and> handle_error_loop fuel1 1 (fetch_lookahead q) = handle_error_loop (Suc 0) 1 ?P \<longrightarrow>
        parse_step fuel1 q = Some (Inr (Return (Some root) pr))
        \<and> parse_loop (Suc fuel1) q = Some (Inr (Some root, pr))"
    by blast
  from drv[rule_format, of "shifted_a ''a@''" 2 "Suc 0"] act sym(1) la
  have ret: "parse_step (Suc 0) (shifted_a ''a@'') = Some (Inr (Return (Some root) pr))"
    "parse_loop (Suc (Suc 0)) (shifted_a ''a@'') = Some (Inr (Some root, pr))"
    by simp_all
  have whole: "parse_loop (Suc (Suc (Suc 0))) ?E = Some (Inr (Some root, pr))"
    using reach ret(2) by (simp del: parse_loop.simps add: parse_loop.simps(2)[of "Suc (Suc 0)" ?E])
  have c10: "\<exists>pf root pr.
          handle_error_loop (Suc 0) 1 ?P = Some (Inr (False, pf))
        \<and> stack pf = [\<lparr>state = 1, node = 0\<rparr>, \<lparr>state = 0, node = 1\<rparr>]
        \<and> children (trees pr root) = [0, 1]
        \<and> parse_step (Suc 0) (shifted_a ''a@'') = Some (Inr (Return (Some root) pr))
        \<and> parse_loop (Suc (Suc (Suc 0))) ?E = Some (Inr (Some root, pr))"
    using pf ret(1) whole unfolding st by auto
  from t2 inside have c12: "handle_error_loop (Suc (Suc 0)) 1 ?Q =
       handle_error_loop (Suc 0) 1
         ((lex_parser ?Q 1)\<lparr>lexer := snd (ts_lexer_advance (lexer (lex_parser ?Q 1)))\<rparr>)"
    by blast
  let ?Q2 = "(lex_parser ?Q 1)\<lparr>lexer := snd (ts_lexer_advance (lexer (lex_parser ?Q 1)))\<rparr>"
  let ?F = "loop_entry (strict_language recover_table) ''a@@''"
  have reach2: "parse_step (Suc (Suc (Suc 0))) ?F = Some (Inr (Continue (shifted_a ''a@@'')))"
    by (rule shifted_a_reached)
  have act2: "next_action (shifted_a ''a@@'') = Inr (TSParseActionTypeShift 2)"
    and la2: "lookahead ?Q = Some 1"
    by (simp_all add: defs)
  have sym2: "lookahead_symbol ?Q2 = Some ts_builtin_sym_error"
    and st2: "stack ?Q2 = [\<lparr>state = 1, node = 0\<rparr>]"
    and lang2: "language ?Q2 = strict_language recover_table"
    and pos2: "current_position (lexer ?Q2) = \<lparr>chars = 2, extended = 2\<rparr>"
      "current_position (lexer (lex_parser ?Q2 1)) = \<lparr>chars = 2, extended = 2\<rparr>"
    and adv2: "current_position (snd (ts_lexer_advance (lexer (lex_parser ?Q2 1))))
               = \<lparr>chars = 3, extended = 3\<rparr>"
      "input (snd (ts_lexer_advance (lexer (lex_parser ?Q2 1)))) = ''a@@''"
    by (simp_all add: defs Let_def)
  have none2: "\<forall>e \<in> set (stack ?Q2). recovery_state (language ?Q2) ts_builtin_sym_error e = None"
    unfolding st2 lang2 using rs by simp
  have same2: "ts_length_eq (current_position (lexer (lex_parser ?Q2 (lex_error_state (language ?Q2)))))
                (current_position (lexer ?Q2))"
    unfolding lang2 les pos2 by (simp add: ts_length_eq_def)
  have at_end2: "length (input (snd (ts_lexer_advance (lexer (lex_parser ?Q2 1)))))
      \<le> unat (chars (current_position (snd (ts_lexer_advance (lexer (lex_parser ?Q2 1))))))"
    unfolding adv2 by simp
  note t3 = recovery_fails_at_end_of_input[OF sym2 none2 refl same2 refl, of 0 1,
      unfolded lang2 les]
  from t3 at_end2 obtain pf2 root2 pr2 where
    pf2: "handle_error_loop (Suc 0) 1 ?Q2 = Some (Inr (False, pf2))"
      "lexer pf2 = snd (ts_lexer_advance (lexer (lex_parser ?Q2 1)))"
      "get_root pf2 = Inr (Some root2, pr2)"
      "children (trees pr2 root2) = map node (stack ?Q2) @ [1]"
    and drv2: "\<forall>q fuel1 t.
        (next_action q = Inr TSParseActionTypeError
         \<or> (next_action q = Inr (TSParseActionTypeShift t)
             \<and> lookahead_symbol (fetch_lookahead q) = Some ts_builtin_sym_error))
        \<and> lookahead (fetch_lookahead q) = Some 1
        \<and> handle_error_loop fuel1 1 (fetch_lookahead q) = handle_error_loop (Suc 0) 1 ?Q2 \<longrightarrow>
        parse_step fuel1 q = Some (Inr (Return (Some root2) pr2))
        \<and> parse_loop (Suc fuel1) q = Some (Inr (Some root2, pr2))"
    by blast
  from drv2[rule_format, of "shifted_a ''a@@''" 2 "Suc (Suc 0)"] act2 sym(2) la2 c12
  have ret2: "parse_loop (Suc (Suc (Suc 0))) (shifted_a ''a@@'') = Some (Inr (Some root2, pr2))"
    by simp
  have whole2: "parse_loop (Suc (Suc (Suc (Suc 0)))) ?F = Some (Inr (Some root2, pr2))"
    using reach2 ret2
    by (simp del: parse_loop.simps add: parse_loop.simps(2)[of "Suc (Suc (Suc 0))" ?F])
  have c13: "\<exists>root pr. parse_loop (Suc (Suc (Suc (Suc 0)))) ?F = Some (Inr (Some root, pr))
        \<and> children (trees pr root) = [0, 1]"
    using whole2 pf2(4) unfolding st2 by auto
  show ?thesis
    using reach act sym(1) la st(1) rs pos(1,2) adv(1) c10 adv(3) c12 c13 by blast
qed

subsection \<open>C7: shifting an extra token\<close>

text \<open>
  C7. A lookahead that is marked extra is pushed by \<^verbatim>\<open>shift\<close> under the state on top of
  the stack, whatever the target state, so that the top state stays what it was; and
  \<^verbatim>\<open>shift_extra\<close> marks the lookahead extra and pushes it under the state on top of the
  stack.
\<close>

theorem shift_extra_keeps_top_state:
  assumes "lookahead parser = Some la"
  shows "(ts_tree_is_extra (trees parser la) \<longrightarrow>
            shift parser target_state =
              Inr (parser\<lparr>stack := stack parser @
                              [\<lparr>state = ts_stack_top_state (stack parser), node = la\<rparr>],
                            lookahead := next_lookahead parser, next_lookahead := None\<rparr>)
            \<and> ts_stack_top_state
                 (stack parser @ [\<lparr>state = ts_stack_top_state (stack parser), node = la\<rparr>])
                = ts_stack_top_state (stack parser))
       \<and> shift_extra parser =
            Inr (parser\<lparr>trees := (trees parser)(la := ts_tree_set_extra (trees parser la)),
                        stack := stack parser @
                              [\<lparr>state = ts_stack_top_state (stack parser), node = la\<rparr>],
                        lookahead := next_lookahead parser, next_lookahead := None\<rparr>)"
  using assms
  by (simp add: shift_def shift_extra_def ts_stack_push_def ts_tree_is_extra_def
      ts_tree_set_extra_def ts_stack_top_state_def)

text \<open>
  Witness for C7: the extra node 1 is shifted with target state 7 on a stack whose top
  state is 2, and node 0 is shifted by \<^verbatim>\<open>shift_extra\<close>; both are pushed under state 2.
\<close>

theorem shift_extra_keeps_top_state_witness:
  "lookahead ((demo_parser [\<lparr>state = 2, node = 0\<rparr>])\<lparr>lookahead := Some 1\<rparr>) = Some 1
   \<and> ts_tree_is_extra (trees ((demo_parser [\<lparr>state = 2, node = 0\<rparr>])\<lparr>lookahead := Some 1\<rparr>) 1)
   \<and> map_sum id stack (shift ((demo_parser [\<lparr>state = 2, node = 0\<rparr>])\<lparr>lookahead := Some 1\<rparr>) 7)
        = Inr [\<lparr>state = 2, node = 0\<rparr>, \<lparr>state = 2, node = 1\<rparr>]
   \<and> map_sum id stack (shift_extra ((demo_parser [\<lparr>state = 2, node = 0\<rparr>])\<lparr>lookahead := Some 0\<rparr>))
        = Inr [\<lparr>state = 2, node = 0\<rparr>, \<lparr>state = 2, node = 0\<rparr>]"
  using shift_extra_keeps_top_state
          [of "(demo_parser [\<lparr>state = 2, node = 0\<rparr>])\<lparr>lookahead := Some 1\<rparr>" 1 7]
        shift_extra_keeps_top_state
          [of "(demo_parser [\<lparr>state = 2, node = 0\<rparr>])\<lparr>lookahead := Some 0\<rparr>" 0 7]
  by (simp add: demo_defs ts_stack_top_state_def)

subsection \<open>C8: finalization\<close>

text \<open>
  C8. \<^verbatim>\<open>get_root\<close> on a stack that is not empty makes one new node of the document symbol
  whose children are the nodes of all entries, clears its flag bits, and leaves it as
  the only entry of the stack, under state 0; that node, the node of entry 0, is
  returned. On the empty stack it first makes an error node of size and padding zero,
  which becomes the only child of the document.
\<close>

theorem get_root_builds_document:
  "(stack parser \<noteq> [] \<longrightarrow>
      (\<exists>p'. get_root parser = Inr (Some (next_tree parser), p')
         \<and> stack p' = [\<lparr>state = 0, node = next_tree parser\<rparr>]
         \<and> node (stack p' ! 0) = next_tree parser
         \<and> symbol (trees p' (next_tree parser)) = ts_builtin_sym_document (language parser)
         \<and> children (trees p' (next_tree parser)) = map node (stack parser)
         \<and> options (trees p' (next_tree parser)) = no_options
         \<and> lookahead p' = lookahead parser \<and> next_lookahead p' = None))
   \<and> (stack parser = [] \<longrightarrow>
      (\<exists>p'. get_root parser = Inr (Some (next_tree parser + 1), p')
         \<and> stack p' = [\<lparr>state = 0, node = next_tree parser + 1\<rparr>]
         \<and> node (stack p' ! 0) = next_tree parser + 1
         \<and> symbol (trees p' (next_tree parser + 1)) = ts_builtin_sym_document (language parser)
         \<and> children (trees p' (next_tree parser + 1)) = [next_tree parser]
         \<and> options (trees p' (next_tree parser + 1)) = no_options
         \<and> trees p' (next_tree parser) =
              \<lparr>symbol = ts_builtin_sym_error, padding = ts_length_zero, sizeT = ts_length_zero,
               children = [], options = no_options\<rparr>
         \<and> lookahead p' = lookahead parser \<and> next_lookahead p' = None))"
  by (rule get_root_result)

text \<open>
  Witness for C8: on a stack of two entries the document has their two nodes as
  children; on the empty stack its only child is a new error node.
\<close>

theorem get_root_builds_document_witness:
  "stack (demo_parser [\<lparr>state = 1, node = 0\<rparr>, \<lparr>state = 1, node = 1\<rparr>]) \<noteq> []
   \<and> stack (demo_parser []) = []
   \<and> (\<exists>p'. get_root (demo_parser [\<lparr>state = 1, node = 0\<rparr>, \<lparr>state = 1, node = 1\<rparr>]) = Inr (Some 3, p')
          \<and> stack p' = [\<lparr>state = 0, node = 3\<rparr>] \<and> symbol (trees p' 3) = 4
          \<and> children (trees p' 3) = [0, 1])
   \<and> (\<exists>p'. get_root (demo_parser []) = Inr (Some 4, p')
          \<and> stack p' = [\<lparr>state = 0, node = 4\<rparr>] \<and> symbol (trees p' 4) = 4
          \<and> children (trees p' 4) = [3] \<and> symbol (trees p' 3) = 0)"
  using get_root_builds_document[of "demo_parser [\<lparr>state = 1, node = 0\<rparr>, \<lparr>state = 1, node = 1\<rparr>]"]
    get_root_builds_document[of "demo_parser []"]
  by (auto simp add: demo_defs ts_builtin_sym_document_def ts_builtin_sym_error_def)

subsection \<open>C9: what \<^verbatim>\<open>ts_parser_parse\<close> returns\<close>

text \<open>
  C9 fails on the code. The input is \<open>a@\<close> with the table \<open>error_loop_table\<close>: after the
  shift of \<open>a\<close> the lookahead is the lexer's error token, node 1. \<^verbatim>\<open>handle_error\<close> takes
  it as its error node, recovers at the top state at once, pushes the node under state
  2 and answers success, and the node is still the lookahead. The next round finds the
  same lookahead in state 2, whose action on the error symbol is the shift into state
  2, and recovers again: every round pushes node 1 once more, and no amount of fuel
  makes \<^verbatim>\<open>ts_parser_parse\<close> return.
\<close>

theorem recovery_repeats_on_error_token:
  "(case parse_step 1 (loop_entry (demo_language error_loop_table) ''a@'') of
      Some (Inr (Continue p1)) \<Rightarrow>
        (case parse_step 1 p1 of
           Some (Inr (Continue p2)) \<Rightarrow>
             (case parse_step 1 p2 of
                Some (Inr (Continue p3)) \<Rightarrow>
                  stack p1 = [\<lparr>state = 1, node = 0\<rparr>] \<and> lookahead p1 = None
                  \<and> stack p2 = [\<lparr>state = 1, node = 0\<rparr>, \<lparr>state = 2, node = 1\<rparr>]
                  \<and> lookahead p2 = Some 1
                  \<and> stack p3 = [\<lparr>state = 1, node = 0\<rparr>, \<lparr>state = 2, node = 1\<rparr>,
                                \<lparr>state = 2, node = 1\<rparr>]
                  \<and> lookahead p3 = Some 1
                  \<and> symbol (trees p3 1) = ts_builtin_sym_error
              | _ \<Rightarrow> False)
         | _ \<Rightarrow> False)
    | _ \<Rightarrow> False)
   \<and> \<not> (\<exists>fuel r. ts_parser_parse fuel (ts_parser_make (demo_language error_loop_table)) ''a@'' None
                 = Some r)"
proof -
  let ?L = "demo_language error_loop_table"
  have start: "parse_begin fuel (ts_parser_make ?L) ''a@'' None = Some (loop_entry ?L ''a@'')"
    for fuel
    by (simp add: parse_begin_def breakdown_stack_def loop_entry_def ts_parser_make_def
        ts_stack_shrink_def ts_lexer_make_def ts_stack_make_def)
  have first: "\<exists>p1. parse_step fuel (loop_entry ?L ''a@'') = Some (Inr (Continue p1))
                 \<and> error_loops p1" for fuel
    by (simp add: run_defs demo_defs error_loop_table_def shift_def ts_tree_is_extra_def
        ts_builtin_sym_error_def error_loops_def)
  have "parse_loop fuel (loop_entry ?L ''a@'') = None" for fuel
  proof (cases fuel)
    case 0
    then show ?thesis by simp
  next
    case (Suc f)
    from first[of f] obtain p1 where
      "parse_step f (loop_entry ?L ''a@'') = Some (Inr (Continue p1))" "error_loops p1"
      by blast
    with Suc error_loop_runs[of p1 f] show ?thesis by simp
  qed
  then have never: "\<not> (\<exists>fuel r. ts_parser_parse fuel (ts_parser_make ?L) ''a@'' None = Some r)"
    by (simp add: ts_parser_parse_def start)
  have rounds: "(case parse_step 1 (loop_entry ?L ''a@'') of
      Some (Inr (Continue p1)) \<Rightarrow>
        (case parse_step 1 p1 of
           Some (Inr (Continue p2)) \<Rightarrow>
             (case parse_step 1 p2 of
                Some (Inr (Continue p3)) \<Rightarrow>
                  stack p1 = [\<lparr>state = 1, node = 0\<rparr>] \<and> lookahead p1 = None
                  \<and> stack p2 = [\<lparr>state = 1, node = 0\<rparr>, \<lparr>state = 2, node = 1\<rparr>]
                  \<and> lookahead p2 = Some 1
                  \<and> stack p3 = [\<lparr>state = 1, node = 0\<rparr>, \<lparr>state = 2, node = 1\<rparr>,
                                \<lparr>state = 2, node = 1\<rparr>]
                  \<and> lookahead p3 = Some 1
                  \<and> symbol (trees p3 1) = ts_builtin_sym_error
              | _ \<Rightarrow> False)
         | _ \<Rightarrow> False)
    | _ \<Rightarrow> False)"
    by (simp add: parse_defs run_defs demo_defs error_loop_table_def)
  from rounds never show ?thesis
    by (rule conjI)
qed

subsection \<open>C10: \<^verbatim>\<open>reduce\<close> stays inside the stack\<close>

text \<open>
  C10. When the nominal child count is at most the size of the stack, the walk ends
  with an effective count between the nominal count and the size, so that
  \<^verbatim>\<open>start_index\<close> does not wrap around, every entry read lies inside the stack, and
  \<^verbatim>\<open>reduce\<close> ends without a fault. The walk compares the count with the size for
  equality only: when the nominal count is above the size (and the count cannot wrap
  around \<^verbatim>\<open>SIZE_MAX\<close>), \<^verbatim>\<open>reduce\<close> reads outside the stack.
\<close>

theorem reduce_in_bounds:
  assumes "length (stack parser) \<le> SIZE_MAX"
  shows "(child_count \<le> length (stack parser) \<longrightarrow>
           (\<exists>cc p'. reduce_walk (trees parser) (stack parser) 0 child_count = Inr cc
              \<and> child_count \<le> cc \<and> cc \<le> length (stack parser)
              \<and> (\<forall>i<cc. length (stack parser) - cc + i < length (stack parser))
              \<and> reduce parser symb child_count = Inr p'))
       \<and> (length (stack parser) < child_count
            \<and> child_count + length (stack parser) \<le> SIZE_MAX \<longrightarrow>
           reduce parser symb child_count = Inl OutOfBounds)"
proof (intro conjI impI)
  assume le: "child_count \<le> length (stack parser)"
  let ?ex = "extras_among_top (trees parser) (stack parser)"
  have "child_count = child_count + ?ex 0"
    by (simp add: extras_among_top_def)
  from reduce_walk_counts[OF _ le assms this]
  obtain k where k: "reduce_walk (trees parser) (stack parser) 0 child_count = Inr (child_count + ?ex k)"
    "child_count + ?ex k \<le> length (stack parser)"
    by auto
  show "\<exists>cc p'. reduce_walk (trees parser) (stack parser) 0 child_count = Inr cc
              \<and> child_count \<le> cc \<and> cc \<le> length (stack parser)
              \<and> (\<forall>i<cc. length (stack parser) - cc + i < length (stack parser))
              \<and> reduce parser symb child_count = Inr p'"
    using k reduce_result[OF k(1) k(2), of symb] by auto
next
  assume "length (stack parser) < child_count \<and> child_count + length (stack parser) \<le> SIZE_MAX"
  then have "reduce_walk (trees parser) (stack parser) 0 child_count = Inl OutOfBounds"
    by (intro reduce_walk_faults) auto
  then show "reduce parser symb child_count = Inl OutOfBounds"
    by (simp add: reduce_def)
qed

text \<open>
  Witness for C10: on a stack of two entries, nominal count 1 ends with the effective
  count 2, and nominal count 3 reads outside the stack.
\<close>

theorem reduce_in_bounds_witness:
  "length (stack (demo_parser [\<lparr>state = 1, node = 0\<rparr>, \<lparr>state = 1, node = 1\<rparr>])) \<le> SIZE_MAX
   \<and> reduce_walk demo_store [\<lparr>state = 1, node = 0\<rparr>, \<lparr>state = 1, node = 1\<rparr>] 0 1 = Inr 2
   \<and> (\<exists>p'. reduce (demo_parser [\<lparr>state = 1, node = 0\<rparr>, \<lparr>state = 1, node = 1\<rparr>]) 4 1 = Inr p')
   \<and> reduce (demo_parser [\<lparr>state = 1, node = 0\<rparr>, \<lparr>state = 1, node = 1\<rparr>]) 4 3 = Inl OutOfBounds"
  using reduce_in_bounds[of "demo_parser [\<lparr>state = 1, node = 0\<rparr>, \<lparr>state = 1, node = 1\<rparr>]" 1 4]
    reduce_in_bounds[of "demo_parser [\<lparr>state = 1, node = 0\<rparr>, \<lparr>state = 1, node = 1\<rparr>]" 3 4]
  by (auto simp add: demo_defs SIZE_MAX_def reduce_walk.simps)

end
